theory Spec2Isabelle
  imports Main
begin

section \<open>The error model and its formatter\<close>

text \<open>
  \<^verbatim>\<open>valid.types.Error\<close> carries a tuple of \<open>(path, msg)\<close> pairs. Every other
  exception that the library lets escape (\<^verbatim>\<open>TypeError\<close> from a builtin conversion,
  \<^verbatim>\<open>AttributeError\<close> from a missing method, ...) is a constructor of its own, so
  that each \<^verbatim>\<open>raise\<close> and each uncaught failure of the source is a value of the model.
\<close>

datatype exn =
    Error "(string \<times> string) list"
  | ValueError
  | TypeError
  | AttributeError
  | NotImplementedError
  | IndexError
  | KeyError
  | OverflowError
  | UnicodeEncodeError
  | UnicodeDecodeError

subsection \<open>String helpers of the Python runtime\<close>

text \<open>\<^verbatim>\<open>sep.join(seq)\<close> on a sequence of strings.\<close>

fun join :: "string \<Rightarrow> string list \<Rightarrow> string" where
  "join sep [] = []"
| "join sep [x] = x"
| "join sep (x # y # ys) = x @ sep @ join sep (y # ys)"

text \<open>\<^verbatim>\<open>path.lstrip('.')\<close>: drop every leading dot.\<close>

definition lstrip_dot :: "string \<Rightarrow> string" where
  "lstrip_dot p = dropWhile (\<lambda>c. c = CHR ''.'') p"

subsection \<open>\<^verbatim>\<open>util.kooljoin\<close>\<close>

text \<open>
  \<^verbatim>\<open>
  def kooljoin(word, seq):
    word += ' '
    if len(seq) < 3: return (' ' + word).join(seq)
    seq = list(seq)
    seq[-1] = word + seq[-1]
    return ', '.join(seq)
  \<close>
  In the second branch \<open>seq\<close> has at least three elements, so \<open>seq[-1]\<close> is its last
  element and the assignment cannot fail.
\<close>

definition kooljoin :: "string \<Rightarrow> string list \<Rightarrow> string" where
  "kooljoin word seq =
     (let word' = word @ '' '' in
      if length seq < 3 then join ('' '' @ word') seq
      else join '', '' (seq[length seq - 1 := word' @ seq ! (length seq - 1)]))"

subsection \<open>\<^verbatim>\<open>Error.format\<close>\<close>

text \<open>
  \<^verbatim>\<open>
  def format(self):
    ret = ()
    for path, msg in self.errors:
      path = path.lstrip('.')
      if not path: path = 'value'
      ret += '%s %s' % (path, msg),
    return kooljoin('and', ret)
  \<close>
\<close>

fun format_loop :: "(string \<times> string) list \<Rightarrow> string list \<Rightarrow> string list" where
  "format_loop [] ret = ret"
| "format_loop ((path, msg) # es) ret =
     (let path1 = lstrip_dot path;
          path2 = (if path1 = [] then ''value'' else path1)
      in format_loop es (ret @ [path2 @ '' '' @ msg]))"

definition format :: "(string \<times> string) list \<Rightarrow> string" where
  "format errors = kooljoin ''and'' (format_loop errors [])"

text \<open>
  The wording of the specification, kept apart from the code: one phrase per pair, and
  the joining rule by number of phrases.
\<close>

definition spec_phrase :: "string \<times> string \<Rightarrow> string" where
  "spec_phrase e =
     (let p = dropWhile (\<lambda>c. c = CHR ''.'') (fst e)
      in (if p = [] then ''value'' else p) @ '' '' @ snd e)"

fun spec_commas :: "string list \<Rightarrow> string" where
  "spec_commas [] = []"
| "spec_commas (x # xs) = x @ '', '' @ spec_commas xs"

definition spec_join :: "string list \<Rightarrow> string" where
  "spec_join ps =
     (case ps of
        [] \<Rightarrow> []
      | [a] \<Rightarrow> a
      | [a, b] \<Rightarrow> a @ '' and '' @ b
      | _ \<Rightarrow> spec_commas (butlast ps) @ ''and '' @ last ps)"

section \<open>Python values and the builtins the library calls\<close>

text \<open>
  The data that \<^verbatim>\<open>validate\<close> receives and returns. A \<^verbatim>\<open>str\<close> is a byte string, a
  \<^verbatim>\<open>unicode\<close> a list of code points, a \<^verbatim>\<open>dict\<close> an association list with string
  keys and one entry per key. \<open>Fromtype\<close> is the sentinel object
  \<^verbatim>\<open>types.fromtype = object()\<close>. Floating-point numbers are left uninterpreted:
  \<open>'f\<close> is their carrier, and whatever the runtime computes on them is a field of the
  \<open>runtime\<close> record below.
\<close>

datatype 'f pyval =
    PNone
  | PBool bool
  | PInt int
  | PFloat 'f
  | PStr string
  | PUnicode "nat list"
  | PList "'f pyval list"
  | PTuple "'f pyval list"
  | PDict "(string \<times> 'f pyval) list"
  | Fromtype

text \<open>
  What the Python runtime decides and the library does not: the order in which a
  \<^verbatim>\<open>set\<close> of names is iterated, \<^verbatim>\<open>str()\<close> of floats and containers, the Unicode
  tables, and all arithmetic on floats. \<open>rt_int_of_float\<close> is the truncation of
  \<^verbatim>\<open>int(f)\<close>, which raises \<^verbatim>\<open>OverflowError\<close> on an infinity and \<^verbatim>\<open>ValueError\<close> on a
  NaN.
\<close>

datatype float_int = FInt int | FInf | FNan

record 'f runtime =
  rt_set_iter :: "string list \<Rightarrow> string list"
  rt_str :: "'f pyval \<Rightarrow> string"
  rt_int_of_unicode :: "nat list \<Rightarrow> int option"
  rt_unicode_lower :: "nat list \<Rightarrow> nat list"
  rt_float_of_text :: "'f pyval \<Rightarrow> 'f option"
  rt_float_of_int :: "int \<Rightarrow> 'f option"
  rt_int_of_float :: "'f \<Rightarrow> float_int"
  rt_float_zero :: "'f"
  rt_float_truth :: "'f \<Rightarrow> bool"
  rt_le :: "'f pyval \<Rightarrow> 'f pyval \<Rightarrow> bool"
  rt_eq :: "'f pyval \<Rightarrow> 'f pyval \<Rightarrow> bool"

subsection \<open>Decimal text\<close>

definition digit_char :: "nat \<Rightarrow> char" where
  "digit_char d = ''0123456789'' ! d"

fun string_of_nat :: "nat \<Rightarrow> string" where
  "string_of_nat n =
     (if n < 10 then [digit_char n]
      else string_of_nat (n div 10) @ [digit_char (n mod 10)])"

declare string_of_nat.simps [simp del]

text \<open>\<^verbatim>\<open>'%s' % i\<close> for an integer \<open>i\<close>.\<close>

definition string_of_int :: "int \<Rightarrow> string" where
  "string_of_int i =
     (if i < 0 then CHR ''-'' # string_of_nat (nat (- i)) else string_of_nat (nat i))"

definition is_space :: "char \<Rightarrow> bool" where
  "is_space c = (c \<in> set [CHR '' '', CHR 0x09, CHR 0x0A, CHR 0x0B, CHR 0x0C, CHR 0x0D])"

definition strip :: "string \<Rightarrow> string" where
  "strip s = rev (dropWhile is_space (rev (dropWhile is_space s)))"

definition digit_value :: "char \<Rightarrow> nat option" where
  "digit_value c = map_of (zip ''0123456789'' [0, 1, 2, 3, 4, 5, 6, 7, 8, 9]) c"

fun digits_value :: "string \<Rightarrow> nat \<Rightarrow> nat option" where
  "digits_value [] acc = Some acc"
| "digits_value (c # cs) acc =
     (case digit_value c of None \<Rightarrow> None | Some d \<Rightarrow> digits_value cs (10 * acc + d))"

text \<open>
  \<^verbatim>\<open>int(s)\<close> for a byte string: surrounding whitespace is dropped, then an optional sign
  and at least one decimal digit must make up the whole text; \<open>None\<close> stands for
  \<^verbatim>\<open>ValueError\<close>.
\<close>

definition int_of_str :: "string \<Rightarrow> int option" where
  "int_of_str s =
     (let t = strip s;
          neg = (t \<noteq> [] \<and> hd t = CHR ''-'');
          ds = (if t \<noteq> [] \<and> (hd t = CHR ''-'' \<or> hd t = CHR ''+'') then tl t else t)
      in if ds = [] then None
         else (case digits_value ds 0 of
                 None \<Rightarrow> None
               | Some n \<Rightarrow> Some (if neg then - int n else int n)))"

subsection \<open>Builtins\<close>

text \<open>\<^verbatim>\<open>len(v)\<close>; \<open>None\<close> stands for the \<^verbatim>\<open>TypeError\<close> of a value without length.\<close>

fun py_len :: "'f pyval \<Rightarrow> nat option" where
  "py_len (PStr s) = Some (length s)"
| "py_len (PUnicode u) = Some (length u)"
| "py_len (PList xs) = Some (length xs)"
| "py_len (PTuple xs) = Some (length xs)"
| "py_len (PDict kvs) = Some (length kvs)"
| "py_len _ = None"

text \<open>\<^verbatim>\<open>v[i]\<close> for a non-negative integer index.\<close>

fun py_getitem :: "'f pyval \<Rightarrow> nat \<Rightarrow> exn + 'f pyval" where
  "py_getitem (PStr s) i = (if i < length s then Inr (PStr [s ! i]) else Inl IndexError)"
| "py_getitem (PUnicode u) i = (if i < length u then Inr (PUnicode [u ! i]) else Inl IndexError)"
| "py_getitem (PList xs) i = (if i < length xs then Inr (xs ! i) else Inl IndexError)"
| "py_getitem (PTuple xs) i = (if i < length xs then Inr (xs ! i) else Inl IndexError)"
| "py_getitem (PDict kvs) i = Inl KeyError"
| "py_getitem _ i = Inl TypeError"

text \<open>Truth value, as tested by \<^verbatim>\<open>not v\<close>.\<close>

fun py_truth :: "'f runtime \<Rightarrow> 'f pyval \<Rightarrow> bool" where
  "py_truth R PNone = False"
| "py_truth R (PBool b) = b"
| "py_truth R (PInt n) = (n \<noteq> 0)"
| "py_truth R (PFloat f) = rt_float_truth R f"
| "py_truth R (PStr s) = (s \<noteq> [])"
| "py_truth R (PUnicode u) = (u \<noteq> [])"
| "py_truth R (PList xs) = (xs \<noteq> [])"
| "py_truth R (PTuple xs) = (xs \<noteq> [])"
| "py_truth R (PDict kvs) = (kvs \<noteq> [])"
| "py_truth R Fromtype = True"

definition lower_char :: "char \<Rightarrow> char" where
  "lower_char c =
     (let n = (of_char c :: nat) in if 65 \<le> n \<and> n \<le> 90 then char_of (n + 32) else c)"

text \<open>\<^verbatim>\<open>v.lower()\<close>: only strings have the method.\<close>

fun py_lower :: "'f runtime \<Rightarrow> 'f pyval \<Rightarrow> exn + 'f pyval" where
  "py_lower R (PStr s) = Inr (PStr (map lower_char s))"
| "py_lower R (PUnicode u) = Inr (PUnicode (rt_unicode_lower R u))"
| "py_lower R _ = Inl AttributeError"

definition ascii_str :: "string \<Rightarrow> bool" where
  "ascii_str s = list_all (\<lambda>c. (of_char c :: nat) < 128) s"

definition ascii_unicode :: "nat list \<Rightarrow> bool" where
  "ascii_unicode u = list_all (\<lambda>n. n < 128) u"

text \<open>\<^verbatim>\<open>int(v)\<close>.\<close>

fun py_int :: "'f runtime \<Rightarrow> 'f pyval \<Rightarrow> exn + 'f pyval" where
  "py_int R (PInt n) = Inr (PInt n)"
| "py_int R (PBool b) = Inr (PInt (if b then 1 else 0))"
| "py_int R (PFloat f) =
     (case rt_int_of_float R f of
        FInt n \<Rightarrow> Inr (PInt n)
      | FInf \<Rightarrow> Inl OverflowError
      | FNan \<Rightarrow> Inl ValueError)"
| "py_int R (PStr s) = (case int_of_str s of None \<Rightarrow> Inl ValueError | Some n \<Rightarrow> Inr (PInt n))"
| "py_int R (PUnicode u) =
     (case rt_int_of_unicode R u of None \<Rightarrow> Inl ValueError | Some n \<Rightarrow> Inr (PInt n))"
| "py_int R _ = Inl TypeError"

text \<open>\<^verbatim>\<open>float(v)\<close>.\<close>

fun py_float :: "'f runtime \<Rightarrow> 'f pyval \<Rightarrow> exn + 'f pyval" where
  "py_float R (PFloat f) = Inr (PFloat f)"
| "py_float R (PInt n) =
     (case rt_float_of_int R n of None \<Rightarrow> Inl OverflowError | Some f \<Rightarrow> Inr (PFloat f))"
| "py_float R (PBool b) =
     (case rt_float_of_int R (if b then 1 else 0) of
        None \<Rightarrow> Inl OverflowError | Some f \<Rightarrow> Inr (PFloat f))"
| "py_float R (PStr s) =
     (case rt_float_of_text R (PStr s) of None \<Rightarrow> Inl ValueError | Some f \<Rightarrow> Inr (PFloat f))"
| "py_float R (PUnicode u) =
     (case rt_float_of_text R (PUnicode u) of None \<Rightarrow> Inl ValueError | Some f \<Rightarrow> Inr (PFloat f))"
| "py_float R _ = Inl TypeError"

text \<open>\<^verbatim>\<open>str(v)\<close> and \<^verbatim>\<open>unicode(v)\<close>, with the default ASCII codec.\<close>

fun py_str :: "'f runtime \<Rightarrow> 'f pyval \<Rightarrow> exn + 'f pyval" where
  "py_str R (PStr s) = Inr (PStr s)"
| "py_str R (PUnicode u) =
     (if ascii_unicode u then Inr (PStr (map char_of u)) else Inl UnicodeEncodeError)"
| "py_str R (PInt n) = Inr (PStr (string_of_int n))"
| "py_str R v = Inr (PStr (rt_str R v))"

fun py_unicode :: "'f runtime \<Rightarrow> 'f pyval \<Rightarrow> exn + 'f pyval" where
  "py_unicode R (PUnicode u) = Inr (PUnicode u)"
| "py_unicode R (PStr s) =
     (if ascii_str s then Inr (PUnicode (map of_char s)) else Inl UnicodeDecodeError)"
| "py_unicode R (PInt n) = Inr (PUnicode (map of_char (string_of_int n)))"
| "py_unicode R v = Inr (PUnicode (map of_char (rt_str R v)))"

text \<open>\<^verbatim>\<open>'%s' % v\<close> for the values the library formats into its messages.\<close>

fun py_format :: "'f runtime \<Rightarrow> 'f pyval \<Rightarrow> string" where
  "py_format R (PStr s) = s"
| "py_format R (PInt n) = string_of_int n"
| "py_format R v = rt_str R v"

fun int_like :: "'f pyval \<Rightarrow> int option" where
  "int_like (PInt n) = Some n"
| "int_like (PBool b) = Some (if b then 1 else 0)"
| "int_like _ = None"

text \<open>\<^verbatim>\<open>a <= b\<close> and \<^verbatim>\<open>a == b\<close>: on integers here, anything else by the runtime.\<close>

definition py_le :: "'f runtime \<Rightarrow> 'f pyval \<Rightarrow> 'f pyval \<Rightarrow> bool" where
  "py_le R a b =
     (case (int_like a, int_like b) of (Some m, Some n) \<Rightarrow> m \<le> n | _ \<Rightarrow> rt_le R a b)"

definition py_eq :: "'f runtime \<Rightarrow> 'f pyval \<Rightarrow> 'f pyval \<Rightarrow> bool" where
  "py_eq R a b =
     (case (int_like a, int_like b) of
        (Some m, Some n) \<Rightarrow> m = n
      | _ \<Rightarrow> (case (a, b) of
                (PStr s, PStr t) \<Rightarrow> s = t
              | (PNone, PNone) \<Rightarrow> True
              | _ \<Rightarrow> rt_eq R a b))"

text \<open>
  \<^verbatim>\<open>v in items\<close> for a tuple of items: equality with some element. (Python tries
  identity first, which differs only for a value that is not equal to itself.)
\<close>

definition py_in :: "'f runtime \<Rightarrow> 'f pyval \<Rightarrow> 'f pyval list \<Rightarrow> bool" where
  "py_in R v items = list_ex (py_eq R v) items"

text \<open>Operations on a \<^verbatim>\<open>dict\<close>: \<^verbatim>\<open>k in d\<close>, \<^verbatim>\<open>d[k]\<close> and \<^verbatim>\<open>d[k] = x\<close>.\<close>

definition dict_has :: "(string \<times> 'a) list \<Rightarrow> string \<Rightarrow> bool" where
  "dict_has d k = (map_of d k \<noteq> None)"

fun dict_set :: "(string \<times> 'a) list \<Rightarrow> string \<Rightarrow> 'a \<Rightarrow> (string \<times> 'a) list" where
  "dict_set [] k x = [(k, x)]"
| "dict_set ((k', y) # d) k x = (if k' = k then (k, x) # d else (k', y) # dict_set d k x)"

section \<open>Type descriptors and Dict classes\<close>

text \<open>
  A descriptor is an instance of one of the classes of \<^verbatim>\<open>valid.types\<close>, given by the
  class that holds its behaviour and the contents of its slots; the class attribute
  \<^verbatim>\<open>cls\<close> tells \<^verbatim>\<open>Int\<close> from \<^verbatim>\<open>Float\<close>, \<^verbatim>\<open>Str\<close> from \<^verbatim>\<open>Unicode\<close> and
  \<^verbatim>\<open>Tuple\<close> from \<^verbatim>\<open>List\<close>. A \<^verbatim>\<open>LenRange\<close> holds its word and the bounds \<open>lo\<close>,
  \<open>hi\<close> of \<^verbatim>\<open>self.range = xrange(lo, hi + 1)\<close>.

  A Dict class is \<^verbatim>\<open>types.Dict\<close> itself or a class statement: its name, its bases and
  the attributes of its body. An attribute is a bare descriptor, a tuple that starts with
  a descriptor, or any other value.
\<close>

datatype numcls = Cint | Cfloat

datatype strcls = Cstr | Cunicode

datatype seqcls = Ctuple | Clist

datatype 'f vtype =
    LenRange string int int
  | NumberBase numcls
  | BoundedNumber numcls "'f pyval" "'f pyval"
  | Bool
  | Enum "'f pyval list"
  | StrBase strcls string int int
  | SeqBase seqcls "'f vtype" "(string \<times> int \<times> int) option"
  | DictC "'f cls"
and 'f attr =
    Bare "'f vtype"
  | Tup "'f vtype" "'f pyval list"
  | Other "'f pyval"
and 'f cls =
    Dict
  | Class string "'f cls list" "(string \<times> 'f attr) list"

subsection \<open>Constructors\<close>

text \<open>
  \<^verbatim>\<open>
  def __init__(self, word, min, max=None):
    self.word = word
    if max is None: min, max = 0, min
    self.range = xrange(min, max + 1)
  \<close>
\<close>

definition LenRange_init :: "string \<Rightarrow> int \<Rightarrow> int option \<Rightarrow> string \<times> int \<times> int" where
  "LenRange_init word mn mx =
     (case mx of None \<Rightarrow> (word, 0, mn) | Some m \<Rightarrow> (word, mn, m))"

definition mk_LenRange :: "string \<Rightarrow> int \<Rightarrow> int option \<Rightarrow> 'f vtype" where
  "mk_LenRange word mn mx = (case LenRange_init word mn mx of (w, lo, hi) \<Rightarrow> LenRange w lo hi)"

definition Int_t :: "'f vtype" where
  "Int_t = NumberBase Cint"

definition Float :: "'f vtype" where
  "Float = NumberBase Cfloat"

definition BoundedInt :: "'f pyval \<Rightarrow> 'f pyval \<Rightarrow> 'f vtype" where
  "BoundedInt mn mx = BoundedNumber Cint mn mx"

definition BoundedFloat :: "'f pyval \<Rightarrow> 'f pyval \<Rightarrow> 'f vtype" where
  "BoundedFloat mn mx = BoundedNumber Cfloat mn mx"

text \<open>\<^verbatim>\<open>StrBase.__init__\<close>: \<^verbatim>\<open>self.lenrange = LenRange('characters', min, max)\<close>.\<close>

definition mk_StrBase :: "strcls \<Rightarrow> int \<Rightarrow> int option \<Rightarrow> 'f vtype" where
  "mk_StrBase c mn mx =
     (case LenRange_init ''characters'' mn mx of (w, lo, hi) \<Rightarrow> StrBase c w lo hi)"

definition Str :: "int \<Rightarrow> int option \<Rightarrow> 'f vtype" where
  "Str mn mx = mk_StrBase Cstr mn mx"

definition Unicode :: "int \<Rightarrow> int option \<Rightarrow> 'f vtype" where
  "Unicode mn mx = mk_StrBase Cunicode mn mx"

text \<open>
  \<^verbatim>\<open>SeqBase.__init__\<close>: no length range when \<open>min\<close> is \<^verbatim>\<open>None\<close>, else
  \<^verbatim>\<open>LenRange('elements', min, max)\<close>.
\<close>

definition mk_SeqBase :: "seqcls \<Rightarrow> 'f vtype \<Rightarrow> int option \<Rightarrow> int option \<Rightarrow> 'f vtype" where
  "mk_SeqBase c typ mn mx =
     SeqBase c typ (case mn of None \<Rightarrow> None | Some m \<Rightarrow> Some (LenRange_init ''elements'' m mx))"

definition List_t :: "'f vtype \<Rightarrow> int option \<Rightarrow> int option \<Rightarrow> 'f vtype" where
  "List_t typ mn mx = mk_SeqBase Clist typ mn mx"

definition Tuple_t :: "'f vtype \<Rightarrow> int option \<Rightarrow> int option \<Rightarrow> 'f vtype" where
  "Tuple_t typ mn mx = mk_SeqBase Ctuple typ mn mx"

subsection \<open>\<^verbatim>\<open>LenRange._check\<close>\<close>

text \<open>
  \<^verbatim>\<open>
  def _check(self, v, **kw):
    try: x = len(v)
    except TypeError:
      raise Error(('', 'has no length defined'))
    if x not in self.range:
      min, max = self.range[0], self.range[-1]
      if min == max: s = 'exactly %s %s' % (min, self.word)
      if min: s = 'between %s and %s %s' % (min, max, self.word)
      else: s = 'no more than %s %s' % (max, self.word)
      raise Error(('', 'must be %s' % s))
    return v
  \<close>
  The local \<open>s\<close> is followed through the two statements that assign it, in their order;
  \<open>self.range[0]\<close> on an empty range raises \<^verbatim>\<open>IndexError\<close>.
\<close>

definition LenRange_phrase :: "string \<Rightarrow> int \<Rightarrow> int \<Rightarrow> string option" where
  "LenRange_phrase word mn mx =
     (let s0 = None;
          s1 = (if mn = mx
                then Some (''exactly '' @ string_of_int mn @ '' '' @ word)
                else s0);
          s2 = (if mn \<noteq> 0
                then Some (''between '' @ string_of_int mn @ '' and '' @ string_of_int mx
                           @ '' '' @ word)
                else Some (''no more than '' @ string_of_int mx @ '' '' @ word))
      in s2)"

text \<open>
  Everything of the method but its last line, as a function of \<^verbatim>\<open>len(v)\<close> (none when
  the call raises \<^verbatim>\<open>TypeError\<close>); the method returns \<open>v\<close> when nothing is raised.
\<close>

definition LenRange_verdict :: "string \<Rightarrow> int \<Rightarrow> int \<Rightarrow> nat option \<Rightarrow> exn option" where
  "LenRange_verdict word lo hi len =
     (case len of
        None \<Rightarrow> Some (Error [([], ''has no length defined'')])
      | Some x \<Rightarrow>
          if \<not> (lo \<le> int x \<and> int x \<le> hi) then
            (if hi < lo then Some IndexError
             else (case LenRange_phrase word lo hi of
                     None \<Rightarrow> Some TypeError
                   | Some s \<Rightarrow> Some (Error [([], ''must be '' @ s)])))
          else None)"

definition LenRange_check :: "string \<Rightarrow> int \<Rightarrow> int \<Rightarrow> 'f pyval \<Rightarrow> exn + 'f pyval" where
  "LenRange_check word lo hi v =
     (case LenRange_verdict word lo hi (py_len v) of Some e \<Rightarrow> Inl e | None \<Rightarrow> Inr v)"

subsection \<open>\<^verbatim>\<open>NumberBase\<close> and \<^verbatim>\<open>BoundedNumber\<close>\<close>

fun numcls_name :: "numcls \<Rightarrow> string" where
  "numcls_name Cint = ''int''"
| "numcls_name Cfloat = ''float''"

fun numcls_call :: "'f runtime \<Rightarrow> numcls \<Rightarrow> 'f pyval \<Rightarrow> exn + 'f pyval" where
  "numcls_call R Cint v = py_int R v"
| "numcls_call R Cfloat v = py_float R v"

text \<open>
  \<^verbatim>\<open>
  def _check(self, v, **kw):
    try: return self.cls(v)
    except ValueError:
      raise Error(('', 'is not a valid %s' % self.cls.__name__))
  \<close>
  Only \<^verbatim>\<open>ValueError\<close> is caught; any other exception of the conversion leaves the
  method as it is.
\<close>

definition NumberBase_check :: "'f runtime \<Rightarrow> numcls \<Rightarrow> 'f pyval \<Rightarrow> exn + 'f pyval" where
  "NumberBase_check R c v =
     (case numcls_call R c v of
        Inr x \<Rightarrow> Inr x
      | Inl ValueError \<Rightarrow> Inl (Error [([], ''is not a valid '' @ numcls_name c)])
      | Inl e \<Rightarrow> Inl e)"

text \<open>
  \<^verbatim>\<open>
  def _check(self, v, **kw):
    v = super(BoundedNumber, self)._check(v, **kw)
    if not (self.valrange[0] <= v <= self.valrange[1]):
      raise Error(('', 'must be between %s and %s' %  self.valrange))
    return v
  \<close>
\<close>

definition BoundedNumber_check ::
  "'f runtime \<Rightarrow> numcls \<Rightarrow> 'f pyval \<Rightarrow> 'f pyval \<Rightarrow> 'f pyval \<Rightarrow> exn + 'f pyval" where
  "BoundedNumber_check R c lo hi v =
     (case NumberBase_check R c v of
        Inl e \<Rightarrow> Inl e
      | Inr x \<Rightarrow>
          if \<not> (py_le R lo x \<and> py_le R x hi)
          then Inl (Error [([], ''must be between '' @ py_format R lo @ '' and ''
                                @ py_format R hi)])
          else Inr x)"

subsection \<open>\<^verbatim>\<open>Bool\<close>, \<^verbatim>\<open>Enum\<close> and \<^verbatim>\<open>StrBase\<close>\<close>

definition falsevalues :: "string list" where
  "falsevalues = [''0'', ''false'', ''no'', ''off'']"

text \<open>Membership of a lowered string in the frozenset \<open>falsevalues\<close>.\<close>

fun in_falsevalues :: "'f pyval \<Rightarrow> bool" where
  "in_falsevalues (PStr s) = (s \<in> set falsevalues)"
| "in_falsevalues (PUnicode u) = (u \<in> set (map (map of_char) falsevalues))"
| "in_falsevalues _ = False"

text \<open>
  \<^verbatim>\<open>
  def _check(self, v, **kw):
    if not v or v.lower() in self.falsevalues: return False
    return True
  \<close>
\<close>

definition Bool_check :: "'f runtime \<Rightarrow> 'f pyval \<Rightarrow> exn + 'f pyval" where
  "Bool_check R v =
     (if \<not> py_truth R v then Inr (PBool False)
      else (case py_lower R v of
              Inl e \<Rightarrow> Inl e
            | Inr l \<Rightarrow> if in_falsevalues l then Inr (PBool False) else Inr (PBool True)))"

text \<open>
  \<^verbatim>\<open>
  def _check(self, v, **kw):
    if v not in self.items: raise Error(('', 'is not a valid value'))
    return v
  \<close>
\<close>

definition Enum_check :: "'f runtime \<Rightarrow> 'f pyval list \<Rightarrow> 'f pyval \<Rightarrow> exn + 'f pyval" where
  "Enum_check R items v =
     (if \<not> py_in R v items then Inl (Error [([], ''is not a valid value'')]) else Inr v)"

fun strcls_name :: "strcls \<Rightarrow> string" where
  "strcls_name Cstr = ''str''"
| "strcls_name Cunicode = ''unicode''"

fun strcls_call :: "'f runtime \<Rightarrow> strcls \<Rightarrow> 'f pyval \<Rightarrow> exn + 'f pyval" where
  "strcls_call R Cstr v = py_str R v"
| "strcls_call R Cunicode v = py_unicode R v"

text \<open>
  \<^verbatim>\<open>
  def _check(self, v, **kw):
    v = self.lenrange._check(v, **kw)
    try: return self.cls(v)
    except (UnicodeEncodeError, UnicodeDecodeError):
      raise Error(('', 'is not a valid %s' % self.cls.__name__))
  \<close>
\<close>

definition StrBase_check ::
  "'f runtime \<Rightarrow> strcls \<Rightarrow> string \<Rightarrow> int \<Rightarrow> int \<Rightarrow> 'f pyval \<Rightarrow> exn + 'f pyval" where
  "StrBase_check R c word lo hi v =
     (case LenRange_check word lo hi v of
        Inl e \<Rightarrow> Inl e
      | Inr v' \<Rightarrow>
          (case strcls_call R c v' of
             Inr x \<Rightarrow> Inr x
           | Inl UnicodeEncodeError \<Rightarrow> Inl (Error [([], ''is not a valid '' @ strcls_name c)])
           | Inl UnicodeDecodeError \<Rightarrow> Inl (Error [([], ''is not a valid '' @ strcls_name c)])
           | Inl e \<Rightarrow> Inl e))"

subsection \<open>Dict classes: method resolution order and \<^verbatim>\<open>DictType.__init__\<close>\<close>


fun cls_dct :: "'f cls \<Rightarrow> (string \<times> 'f attr) list" where
  "cls_dct Dict = []"
| "cls_dct (Class n bs d) = d"

text \<open>
  The linearisation that Python computes for a new-style class: the class, then the
  merge of the linearisations of its bases and of the list of bases. The merge takes the
  first head that is in the tail of no sequence, and fails (the class statement raises)
  when there is none.
\<close>

definition c3_good :: "'a list list \<Rightarrow> 'a \<Rightarrow> bool" where
  "c3_good seqs h = list_all (\<lambda>s. h \<notin> set (tl s)) seqs"

function c3_merge :: "'a list list \<Rightarrow> 'a list option" where
  "c3_merge seqs =
     (let ss = filter (\<lambda>s. s \<noteq> []) seqs in
      if ss = [] then Some []
      else (case List.find (c3_good ss) (map hd ss) of
              None \<Rightarrow> None
            | Some h \<Rightarrow>
                map_option ((#) h)
                  (c3_merge (map (\<lambda>s. if hd s = h then tl s else s) ss))))"
  by pat_completeness auto

lemma c3_drop_le:
  "sum_list (map length (map (\<lambda>s. if hd s = h then tl s else s) ss)) \<le> sum_list (map length ss)"
  by (induction ss) auto

lemma c3_drop_less:
  assumes "\<forall>s\<in>set ss. s \<noteq> []" and "h \<in> hd ` set ss"
  shows "sum_list (map length (map (\<lambda>s. if hd s = h then tl s else s) ss))
           < sum_list (map length ss)"
  using assms
proof (induction ss)
  case Nil
  then show ?case by simp
next
  case (Cons s ss)
  show ?case
  proof (cases "hd s = h")
    case True
    from Cons.prems have "length (tl s) < length s" by (cases s) auto
    with c3_drop_le[of h ss] True show ?thesis by simp
  next
    case False
    with Cons.prems have "h \<in> hd ` set ss" by auto
    with Cons have "sum_list (map length (map (\<lambda>s. if hd s = h then tl s else s) ss))
                      < sum_list (map length ss)"
      by auto
    with False show ?thesis by simp
  qed
qed

lemma filter_length_le: "sum_list (map length (filter P seqs)) \<le> sum_list (map length seqs)"
  by (induction seqs) auto

termination c3_merge
proof (relation "measure (\<lambda>seqs. sum_list (map length seqs))", goal_cases)
  case 1
  show ?case by simp
next
  case (2 seqs ss h)
  from 2(3) have "h \<in> set (map hd ss)" by (auto simp: find_Some_iff)
  then have h: "h \<in> hd ` set ss" by simp
  have ne: "\<forall>s\<in>set ss. s \<noteq> []" using 2(1) by auto
  have "sum_list (map length ss) \<le> sum_list (map length seqs)"
    unfolding 2(1) by (rule filter_length_le)
  with c3_drop_less[OF ne h] show ?case by simp
qed

declare c3_merge.simps [simp del]

fun mro :: "'f cls \<Rightarrow> 'f cls list option" where
  "mro Dict = Some [Dict]"
| "mro (Class n bs d) =
     (if list_all (\<lambda>b. mro b \<noteq> None) bs
      then map_option ((#) (Class n bs d)) (c3_merge (map (\<lambda>b. the (mro b)) bs @ [bs]))
      else None)"

text \<open>
  \<^verbatim>\<open>
  def __init__(self, name, bases, dct):
    if '__metaclass__' in dct: return # Base class; ignore.
    t = set()
    for cls in bases:
      if hasattr(cls, '_types'): t.update(cls._types)
    def istype(typ): return isinstance(typ, (Base, DictType))
    for name, spec in dct.iteritems():
      if isinstance(spec, tuple) and istype(spec[0]):
        t.add(name)
      elif istype(spec):
        setattr(self, name, (spec,))
        t.add(name)
    self._types = t
  \<close>
  \<^verbatim>\<open>types.Dict\<close> is the one class with \<^verbatim>\<open>__metaclass__\<close> in its body, so it alone has no
  \<^verbatim>\<open>_types\<close>. The set \<open>t\<close> is a list without repetition; the order in which Python
  iterates it is \<open>rt_set_iter\<close> of the runtime.
\<close>

fun is_field :: "'f attr \<Rightarrow> bool" where
  "is_field (Bare t) = True"
| "is_field (Tup t rest) = True"
| "is_field (Other v) = False"

fun cls_types :: "'f cls \<Rightarrow> string list option" where
  "cls_types Dict = None"
| "cls_types (Class n bs d) =
     (let t = [];
          t = fold (\<lambda>b t. case cls_types b of None \<Rightarrow> t | Some ts \<Rightarrow> fold List.insert ts t) bs t;
          t = fold (\<lambda>(name, spec) t. if is_field spec then List.insert name t else t) d t
      in Some t)"

text \<open>The attribute as the class holds it after \<^verbatim>\<open>setattr(self, name, (spec,))\<close>.\<close>

fun normalized :: "'f attr \<Rightarrow> 'f attr" where
  "normalized (Bare t) = Tup t []"
| "normalized a = a"

text \<open>\<^verbatim>\<open>getattr(cls, name)\<close>: the first class of the resolution order that has the name.\<close>

definition getattr :: "'f cls \<Rightarrow> string \<Rightarrow> 'f attr option" where
  "getattr c name =
     (case mro c of
        None \<Rightarrow> None
      | Some l \<Rightarrow>
          (case List.find (\<lambda>k. map_of (cls_dct k) name \<noteq> None) l of
             None \<Rightarrow> None
           | Some k \<Rightarrow> map_option normalized (map_of (cls_dct k) name)))"

text \<open>
  The fields of a specification \<open>spec\<close> as \<^verbatim>\<open>Dict._check\<close> reads them:
  \<^verbatim>\<open>len(spec)\<close>, the descriptor \<^verbatim>\<open>spec[0]\<close> (none when the first item is no
  descriptor) and the default \<^verbatim>\<open>spec[1]\<close>.
\<close>

fun spec_len :: "'f attr \<Rightarrow> nat option" where
  "spec_len (Bare t) = Some 1"
| "spec_len (Tup t rest) = Some (Suc (length rest))"
| "spec_len (Other v) = py_len v"

fun spec_default :: "'f attr \<Rightarrow> exn + 'f pyval" where
  "spec_default (Bare t) = Inl IndexError"
| "spec_default (Tup t rest) = (case rest of [] \<Rightarrow> Inl IndexError | x # _ \<Rightarrow> Inr x)"
| "spec_default (Other v) = py_getitem v 1"

fun spec_typ :: "'f attr \<Rightarrow> 'f vtype option" where
  "spec_typ (Bare t) = Some t"
| "spec_typ (Tup t rest) = Some t"
| "spec_typ (Other v) = None"

text \<open>
  \<^verbatim>\<open>spec[0]\<close> when it is no descriptor: the exception of the indexing, if any; the item
  itself has neither \<^verbatim>\<open>_check\<close> nor \<^verbatim>\<open>_default\<close>.
\<close>

fun spec_first_exn :: "'f attr \<Rightarrow> exn option" where
  "spec_first_exn (Other v) = (case py_getitem v 0 of Inl e \<Rightarrow> Some e | Inr _ \<Rightarrow> None)"
| "spec_first_exn _ = None"

subsection \<open>Defaults\<close>

text \<open>
  \<^verbatim>\<open>_default\<close> of each class: \<^verbatim>\<open>Base\<close> (inherited by \<^verbatim>\<open>LenRange\<close>) raises
  \<^verbatim>\<open>NotImplementedError\<close>; \<^verbatim>\<open>NumberBase\<close> returns \<^verbatim>\<open>self.cls()\<close>;
  \<^verbatim>\<open>BoundedNumber\<close> \<^verbatim>\<open>self.valrange[0]\<close>; \<^verbatim>\<open>Bool\<close> \<^verbatim>\<open>False\<close>; \<^verbatim>\<open>Enum\<close>
  \<^verbatim>\<open>self.items[0]\<close>; \<^verbatim>\<open>StrBase\<close> \<^verbatim>\<open>self.defchar * self.lenrange.range[0]\<close>;
  \<^verbatim>\<open>SeqBase\<close> \<^verbatim>\<open>self.cls()\<close>; \<^verbatim>\<open>Dict\<close> \<^verbatim>\<open>{}\<close>.
\<close>

fun type_default :: "'f runtime \<Rightarrow> 'f vtype \<Rightarrow> exn + 'f pyval" where
  "type_default R (LenRange w lo hi) = Inl NotImplementedError"
| "type_default R (NumberBase Cint) = Inr (PInt 0)"
| "type_default R (NumberBase Cfloat) = Inr (PFloat (rt_float_zero R))"
| "type_default R (BoundedNumber c lo hi) = Inr lo"
| "type_default R Bool = Inr (PBool False)"
| "type_default R (Enum items) = (case items of [] \<Rightarrow> Inl IndexError | x # _ \<Rightarrow> Inr x)"
| "type_default R (StrBase c w lo hi) =
     (if hi < lo then Inl IndexError
      else (case c of
              Cstr \<Rightarrow> Inr (PStr (replicate (nat lo) (CHR 0x00)))
            | Cunicode \<Rightarrow> Inr (PUnicode (replicate (nat lo) 0))))"
| "type_default R (SeqBase Clist t lr) = Inr (PList [])"
| "type_default R (SeqBase Ctuple t lr) = Inr (PTuple [])"
| "type_default R (DictC c) = Inr (PDict [])"

subsection \<open>\<^verbatim>\<open>SeqBase._check\<close>\<close>

text \<open>
  \<^verbatim>\<open>
  def _check(self, v, **kw):
    if not isinstance(v, self.cls):
      raise Error(('', 'is not a %s' % self.cls.__name__))
    if self.lenrange is not None:
      v = self.lenrange._check(v, **kw)
    ret = ()
    bad = ()
    for i, x in enumerate(v):
      try: ret += self.type._check(x, **kw),
      except Error, e:
        for path, msg in e.errors:
          bad += ('[%s]%s' % (i, path), msg),
    if bad: raise Error(*bad)
    return self.cls(ret)
  \<close>
  The loop runs over the outcomes of the element checks in order, with the index \<open>i\<close>
  and the two accumulators; an exception other than \<open>Error\<close> ends it at once.
\<close>

fun seqcls_name :: "seqcls \<Rightarrow> string" where
  "seqcls_name Ctuple = ''tuple''"
| "seqcls_name Clist = ''list''"

fun isinstance_seq :: "'f pyval \<Rightarrow> seqcls \<Rightarrow> bool" where
  "isinstance_seq (PTuple xs) Ctuple = True"
| "isinstance_seq (PList xs) Clist = True"
| "isinstance_seq _ _ = False"

fun seq_items :: "'f pyval \<Rightarrow> 'f pyval list" where
  "seq_items (PTuple xs) = xs"
| "seq_items (PList xs) = xs"
| "seq_items _ = []"

fun seqcls_call :: "seqcls \<Rightarrow> 'f pyval list \<Rightarrow> 'f pyval" where
  "seqcls_call Ctuple ret = PTuple ret"
| "seqcls_call Clist ret = PList ret"

definition seq_rehome :: "nat \<Rightarrow> string \<times> string \<Rightarrow> string \<times> string" where
  "seq_rehome i e = (''['' @ string_of_nat i @ '']'' @ fst e, snd e)"

fun SeqBase_loop ::
  "(exn + 'f pyval) list \<Rightarrow> nat \<Rightarrow> 'f pyval list \<Rightarrow> (string \<times> string) list
     \<Rightarrow> exn + ('f pyval list \<times> (string \<times> string) list)" where
  "SeqBase_loop [] i ret bad = Inr (ret, bad)"
| "SeqBase_loop (Inr y # rs) i ret bad = SeqBase_loop rs (Suc i) (ret @ [y]) bad"
| "SeqBase_loop (Inl (Error errors) # rs) i ret bad =
     SeqBase_loop rs (Suc i) ret (bad @ map (seq_rehome i) errors)"
| "SeqBase_loop (Inl e # rs) i ret bad = Inl e"

definition SeqBase_finish ::
  "seqcls \<Rightarrow> exn + ('f pyval list \<times> (string \<times> string) list) \<Rightarrow> exn + 'f pyval" where
  "SeqBase_finish c r =
     (case r of
        Inl e \<Rightarrow> Inl e
      | Inr (ret, bad) \<Rightarrow> if bad \<noteq> [] then Inl (Error bad) else Inr (seqcls_call c ret))"

subsection \<open>\<^verbatim>\<open>Dict._check\<close>\<close>

text \<open>
  \<^verbatim>\<open>
  def _check(cls, v, **kw):
    optional = kw.get('optional', False)
    if not isinstance(v, dict): raise Error(('', 'is not a dict'))
    ret = {}
    bad = ()
    for name in cls._types:
      spec = getattr(cls, name)
      if len(spec) == 2:
        opt = True
        default = spec[1]
      else:
        opt = False
      typ = spec[0]
      if name not in v:
        if not optional:
          if opt:
            if default is fromtype: ret[name] = typ._default()
            else: ret[name] = default
          else:
            bad += ('.' + name, 'is required'),
      else:
        try:
          ret[name] = typ._check(v[name], **kw)
        except Error, e:
          for path, msg in e.errors:
            bad += ('.' + name + path, msg),
    if bad: raise Error(*bad)
    return ret
  \<close>
  One pass of the loop body is a \<open>step\<close>: it leaves both accumulators alone, stores a
  value in \<open>ret\<close>, appends to \<open>bad\<close>, or raises. \<open>Dict_field\<close> is the body for one
  name; its last argument is the outcome of \<^verbatim>\<open>typ._check(v[name], **kw)\<close>, present
  when the name is in \<open>v\<close> and \<^verbatim>\<open>spec[0]\<close> is a descriptor.
\<close>

datatype 'f step =
    Skip
  | Put string "'f pyval"
  | Bad "(string \<times> string) list"
  | Raise exn

definition dict_rehome :: "string \<Rightarrow> string \<times> string \<Rightarrow> string \<times> string" where
  "dict_rehome name e = (''.'' @ name @ fst e, snd e)"

definition Dict_field ::
  "'f runtime \<Rightarrow> bool \<Rightarrow> string \<Rightarrow> 'f attr \<Rightarrow> bool \<Rightarrow> (exn + 'f pyval) option \<Rightarrow> 'f step" where
  "Dict_field R optional name spec present checked =
     (case spec_len spec of
        None \<Rightarrow> Raise TypeError
      | Some n \<Rightarrow>
          (case (if n = 2 then spec_default spec else Inr PNone) of
             Inl e \<Rightarrow> Raise e
           | Inr dflt \<Rightarrow>
               (case spec_first_exn spec of
                  Some e \<Rightarrow> Raise e
                | None \<Rightarrow>
                    if \<not> present then
                      (if \<not> optional then
                         (if n = 2 then
                            (if dflt = Fromtype then
                               (case spec_typ spec of
                                  None \<Rightarrow> Raise AttributeError
                                | Some typ \<Rightarrow>
                                    (case type_default R typ of
                                       Inl e \<Rightarrow> Raise e
                                     | Inr x \<Rightarrow> Put name x))
                             else Put name dflt)
                          else Bad [(''.'' @ name, ''is required'')])
                       else Skip)
                    else
                      (case checked of
                         None \<Rightarrow> Raise AttributeError
                       | Some (Inr x) \<Rightarrow> Put name x
                       | Some (Inl (Error errors)) \<Rightarrow> Bad (map (dict_rehome name) errors)
                       | Some (Inl e) \<Rightarrow> Raise e))))"

fun Dict_loop ::
  "'f step list \<Rightarrow> (string \<times> 'f pyval) list \<Rightarrow> (string \<times> string) list
     \<Rightarrow> exn + ((string \<times> 'f pyval) list \<times> (string \<times> string) list)" where
  "Dict_loop [] ret bad = Inr (ret, bad)"
| "Dict_loop (Skip # ss) ret bad = Dict_loop ss ret bad"
| "Dict_loop (Put name x # ss) ret bad = Dict_loop ss (dict_set ret name x) bad"
| "Dict_loop (Bad errors # ss) ret bad = Dict_loop ss ret (bad @ errors)"
| "Dict_loop (Raise e # ss) ret bad = Inl e"

definition Dict_finish ::
  "exn + ((string \<times> 'f pyval) list \<times> (string \<times> string) list) \<Rightarrow> exn + 'f pyval" where
  "Dict_finish r =
     (case r of
        Inl e \<Rightarrow> Inl e
      | Inr (ret, bad) \<Rightarrow> if bad \<noteq> [] then Inl (Error bad) else Inr (PDict ret))"

fun dict_items :: "'f pyval \<Rightarrow> (string \<times> 'f pyval) list option" where
  "dict_items (PDict kvs) = Some kvs"
| "dict_items _ = None"

subsection \<open>\<^verbatim>\<open>_check\<close>, dispatched on the class of the descriptor\<close>

text \<open>
  \<open>optional\<close> is \<^verbatim>\<open>kw.get('optional', False)\<close>; the keyword arguments are handed on
  unchanged to every nested \<^verbatim>\<open>_check\<close>.
\<close>

lemma size_dct_entry:
  "(name, a) \<in> set d \<Longrightarrow> size a < Suc (size_list (size_prod (\<lambda>_. 0) size) d)"
  by (induction d) auto

lemma size_base_member: "b \<in> set bs \<Longrightarrow> size b \<le> size_list size bs"
  by (induction bs) auto

lemma c3_merge_subset:
  "c3_merge seqs = Some out \<Longrightarrow> set out \<subseteq> \<Union> (set ` set seqs)"
proof (induction seqs arbitrary: out rule: c3_merge.induct)
  case (1 seqs)
  define ss where "ss = filter (\<lambda>s. s \<noteq> []) seqs"
  show ?case
  proof (cases "ss = []")
    case True
    with "1.prems" show ?thesis
      by (simp add: c3_merge.simps[of seqs] ss_def)
  next
    case False
    with "1.prems" obtain h out' where
      h: "List.find (c3_good ss) (map hd ss) = Some h"
      and m: "c3_merge (map (\<lambda>s. if hd s = h then tl s else s) ss) = Some out'"
      and out: "out = h # out'"
      by (auto simp: c3_merge.simps[of seqs] ss_def Let_def split: option.splits)
    from h have "h \<in> hd ` set ss" by (auto simp: find_Some_iff)
    then have hin: "h \<in> \<Union> (set ` set seqs)"
      by (auto simp: ss_def intro: hd_in_set)
    from "1.IH"[OF ss_def False h m]
    have "set out' \<subseteq> \<Union> (set ` set (map (\<lambda>s. if hd s = h then tl s else s) ss))" .
    also have "\<dots> \<subseteq> \<Union> (set ` set ss)"
    proof
      fix x
      assume "x \<in> \<Union> (set ` set (map (\<lambda>s. if hd s = h then tl s else s) ss))"
      then obtain s where s: "s \<in> set ss" and x: "x \<in> set (if hd s = h then tl s else s)"
        by auto
      from x have "x \<in> set s"
        by (cases s) (auto split: if_splits)
      with s show "x \<in> \<Union> (set ` set ss)" by blast
    qed
    also have "\<dots> \<subseteq> \<Union> (set ` set seqs)" by (auto simp: ss_def)
    finally show ?thesis using hin out by simp
  qed
qed

lemma mro_size: "mro c = Some l \<Longrightarrow> k \<in> set l \<Longrightarrow> size k \<le> size c"
proof (induction c arbitrary: l k rule: mro.induct)
  case 1
  then show ?case by auto
next
  case (2 n bs d)
  from "2.prems" obtain out where
    all: "list_all (\<lambda>b. mro b \<noteq> None) bs"
    and m: "c3_merge (map (\<lambda>b. the (mro b)) bs @ [bs]) = Some out"
    and l: "l = Class n bs d # out"
    by (auto split: if_splits)
  show ?case
  proof (cases "k = Class n bs d")
    case True
    then show ?thesis by simp
  next
    case False
    with "2.prems" l have "k \<in> set out" by simp
    with c3_merge_subset[OF m]
    consider b where "b \<in> set bs" "k \<in> set (the (mro b))" | "k \<in> set bs"
      by auto
    then show ?thesis
    proof cases
      case 1
      from all 1(1) obtain lb where lb: "mro b = Some lb"
        by (auto simp: list_all_iff)
      from "2.IH"(1)[OF 1(1) lb] 1(2) lb have "size k \<le> size b" by simp
      moreover from 1(1) have "size b < size (Class n bs d)"
        using size_base_member[of b bs] by simp
      ultimately show ?thesis by simp
    next
      case 2
      then have "size k < size (Class n bs d)"
        using size_base_member[of k bs] by simp
      then show ?thesis by simp
    qed
  qed
qed

lemma getattr_size:
  assumes "getattr c name = Some spec" and "spec_typ spec = Some t"
  shows "size t < size c"
proof -
  from assms(1) obtain l k a where l: "mro c = Some l"
    and k: "List.find (\<lambda>k. map_of (cls_dct k) name \<noteq> None) l = Some k"
    and a: "map_of (cls_dct k) name = Some a" and spec: "spec = normalized a"
    by (auto simp: getattr_def split: option.splits)
  from k have "k \<in> set l" by (auto simp: find_Some_iff)
  with l have le: "size k \<le> size c" by (rule mro_size)
  from a have mem: "(name, a) \<in> set (cls_dct k)" by (rule map_of_SomeD)
  then obtain n bs d where kc: "k = Class n bs d" by (cases k) auto
  with mem have "size a < size k"
    using size_dct_entry[of name a d] by simp
  moreover from spec assms(2) have "size t < size a"
    by (cases a) auto
  ultimately show ?thesis using le by simp
qed

function (sequential) check ::
  "'f runtime \<Rightarrow> bool \<Rightarrow> 'f vtype \<Rightarrow> 'f pyval \<Rightarrow> exn + 'f pyval" where
  "check R optional (LenRange word lo hi) v = LenRange_check word lo hi v"
| "check R optional (NumberBase c) v = NumberBase_check R c v"
| "check R optional (BoundedNumber c lo hi) v = BoundedNumber_check R c lo hi v"
| "check R optional Bool v = Bool_check R v"
| "check R optional (Enum items) v = Enum_check R items v"
| "check R optional (StrBase c word lo hi) v = StrBase_check R c word lo hi v"
| "check R optional (SeqBase c typ lenrange) v =
     (if \<not> isinstance_seq v c then Inl (Error [([], ''is not a '' @ seqcls_name c)])
      else (case (case lenrange of
                    None \<Rightarrow> Inr v
                  | Some (word, lo, hi) \<Rightarrow> LenRange_check word lo hi v) of
              Inl e \<Rightarrow> Inl e
            | Inr v' \<Rightarrow>
                SeqBase_finish c
                  (SeqBase_loop (map (\<lambda>x. check R optional typ x) (seq_items v')) 0 [] [])))"
| "check R optional (DictC cls) v =
     (case dict_items v of
        None \<Rightarrow> Inl (Error [([], ''is not a dict'')])
      | Some kvs \<Rightarrow>
          (case cls_types cls of
             None \<Rightarrow> Inl AttributeError
           | Some types \<Rightarrow>
               Dict_finish
                 (Dict_loop
                    (map (\<lambda>name.
                            case getattr cls name of
                              None \<Rightarrow> Raise AttributeError
                            | Some spec \<Rightarrow>
                                Dict_field R optional name spec (dict_has kvs name)
                                  (case spec_typ spec of
                                     None \<Rightarrow> None
                                   | Some typ \<Rightarrow>
                                       (case map_of kvs name of
                                          None \<Rightarrow> None
                                        | Some x \<Rightarrow> Some (check R optional typ x))))
                         (rt_set_iter R types))
                    [] [])))"
  by pat_completeness auto

termination check
  by (relation "measure (\<lambda>(R, optional, t, v). size t)") (auto dest: getattr_size)

text \<open>\<^verbatim>\<open>validate(typ, data, **kw)\<close> of the package: \<^verbatim>\<open>return typ._check(data, **kw)\<close>.\<close>

definition validate :: "'f runtime \<Rightarrow> 'f vtype \<Rightarrow> 'f pyval \<Rightarrow> bool \<Rightarrow> exn + 'f pyval" where
  "validate R typ data optional = check R optional typ data"

section \<open>The checks over a store of objects\<close>

text \<open>
  For the claims about what \<^verbatim>\<open>_check\<close> does to the objects it is given, the same
  methods once more with the objects in a store. A value is a scalar or a reference to a
  container; a container is a \<^verbatim>\<open>dict\<close>, a \<^verbatim>\<open>list\<close> or a \<^verbatim>\<open>tuple\<close> of values. The store
  maps the addresses in use to their containers, and \<open>fresh\<close> is the next address that
  \<open>alloc\<close> hands out. The accumulators \<^verbatim>\<open>ret\<close> and \<^verbatim>\<open>bad\<close> of \<^verbatim>\<open>SeqBase._check\<close> and
  \<^verbatim>\<open>bad\<close> of \<^verbatim>\<open>Dict._check\<close> are tuples local to the call and stay lists; \<^verbatim>\<open>ret = {}\<close> of
  \<^verbatim>\<open>Dict._check\<close> is an object of the store, and \<^verbatim>\<open>ret[name] = ...\<close> writes to it.
\<close>

type_synonym addr = nat

datatype 'f hval =
    HNone
  | HBool bool
  | HInt int
  | HFloat 'f
  | HStr string
  | HUnicode "nat list"
  | HFromtype
  | HRef addr

datatype 'f hobj =
    HDict "(string \<times> 'f hval) list"
  | HList "'f hval list"
  | HTuple "'f hval list"

record 'f store =
  heap :: "addr \<Rightarrow> 'f hobj option"
  fresh :: addr

definition alloc :: "'f hobj \<Rightarrow> 'f store \<Rightarrow> addr \<times> 'f store" where
  "alloc obj \<sigma> = (fresh \<sigma>, \<sigma>\<lparr>heap := (heap \<sigma>)(fresh \<sigma> \<mapsto> obj), fresh := Suc (fresh \<sigma>)\<rparr>)"

text \<open>
  What the runtime reads from the store without changing it: the value under which a
  container constant of a schema (a default, a bound) is held, \<^verbatim>\<open>v in items\<close> for a
  container \<open>v\<close>, and \<^verbatim>\<open>str(v)\<close> of a container.
\<close>

record 'f store_runtime =
  rs_const :: "'f pyval \<Rightarrow> 'f hval"
  rs_in :: "(addr \<Rightarrow> 'f hobj option) \<Rightarrow> 'f hval \<Rightarrow> 'f pyval list \<Rightarrow> bool"
  rs_str :: "(addr \<Rightarrow> 'f hobj option) \<Rightarrow> 'f hval \<Rightarrow> string"

fun scalar_of :: "'f hval \<Rightarrow> 'f pyval option" where
  "scalar_of HNone = Some PNone"
| "scalar_of (HBool b) = Some (PBool b)"
| "scalar_of (HInt n) = Some (PInt n)"
| "scalar_of (HFloat f) = Some (PFloat f)"
| "scalar_of (HStr s) = Some (PStr s)"
| "scalar_of (HUnicode u) = Some (PUnicode u)"
| "scalar_of HFromtype = Some Fromtype"
| "scalar_of (HRef a) = None"

fun hval_of :: "'f store_runtime \<Rightarrow> 'f pyval \<Rightarrow> 'f hval" where
  "hval_of S PNone = HNone"
| "hval_of S (PBool b) = HBool b"
| "hval_of S (PInt n) = HInt n"
| "hval_of S (PFloat f) = HFloat f"
| "hval_of S (PStr s) = HStr s"
| "hval_of S (PUnicode u) = HUnicode u"
| "hval_of S Fromtype = HFromtype"
| "hval_of S v = rs_const S v"

fun obj_len :: "'f hobj \<Rightarrow> nat" where
  "obj_len (HDict kvs) = length kvs"
| "obj_len (HList xs) = length xs"
| "obj_len (HTuple xs) = length xs"

text \<open>
  The descriptors other than \<^verbatim>\<open>SeqBase\<close> and \<^verbatim>\<open>Dict\<close> on a container: \<^verbatim>\<open>len\<close> is the
  number of its items; \<^verbatim>\<open>int\<close> and \<^verbatim>\<open>float\<close> raise \<^verbatim>\<open>TypeError\<close>, which
  \<^verbatim>\<open>NumberBase._check\<close> does not catch; a container is true when it is not empty and has
  no method \<^verbatim>\<open>lower\<close>; \<^verbatim>\<open>LenRange._check\<close> and \<^verbatim>\<open>Enum._check\<close> return the object they
  were given. On a scalar these descriptors are \<open>check\<close>.
\<close>

fun container_check_s ::
  "'f store_runtime \<Rightarrow> 'f vtype \<Rightarrow> 'f hval \<Rightarrow> 'f hobj \<Rightarrow> (addr \<Rightarrow> 'f hobj option) \<Rightarrow> exn + 'f hval" where
  "container_check_s S (LenRange word lo hi) v obj h =
     (case LenRange_verdict word lo hi (Some (obj_len obj)) of Some e \<Rightarrow> Inl e | None \<Rightarrow> Inr v)"
| "container_check_s S (NumberBase c) v obj h = Inl TypeError"
| "container_check_s S (BoundedNumber c lo hi) v obj h = Inl TypeError"
| "container_check_s S Bool v obj h =
     (if obj_len obj = 0 then Inr (HBool False) else Inl AttributeError)"
| "container_check_s S (Enum items) v obj h =
     (if \<not> rs_in S h v items then Inl (Error [([], ''is not a valid value'')]) else Inr v)"
| "container_check_s S (StrBase c word lo hi) v obj h =
     (case LenRange_verdict word lo hi (Some (obj_len obj)) of
        Some e \<Rightarrow> Inl e
      | None \<Rightarrow>
          (case c of
             Cstr \<Rightarrow> Inr (HStr (rs_str S h v))
           | Cunicode \<Rightarrow> Inr (HUnicode (map of_char (rs_str S h v)))))"
| "container_check_s S t v obj h = Inl TypeError"

definition scalar_check_s ::
  "'f runtime \<Rightarrow> 'f store_runtime \<Rightarrow> bool \<Rightarrow> 'f vtype \<Rightarrow> 'f hval \<Rightarrow> 'f store \<Rightarrow> exn + 'f hval" where
  "scalar_check_s R S optional t v \<sigma> =
     (case v of
        HRef a \<Rightarrow>
          (case heap \<sigma> a of
             None \<Rightarrow> Inl TypeError
           | Some obj \<Rightarrow> container_check_s S t v obj (heap \<sigma>))
      | _ \<Rightarrow>
          (case scalar_of v of
             None \<Rightarrow> Inl TypeError
           | Some p \<Rightarrow>
               (case check R optional t p of Inl e \<Rightarrow> Inl e | Inr x \<Rightarrow> Inr (hval_of S x))))"

text \<open>\<^verbatim>\<open>_default\<close>: \<^verbatim>\<open>self.cls()\<close> of a sequence and \<^verbatim>\<open>{}\<close> of a Dict are new objects.\<close>

fun type_default_s ::
  "'f runtime \<Rightarrow> 'f store_runtime \<Rightarrow> 'f vtype \<Rightarrow> 'f store \<Rightarrow> (exn + 'f hval) \<times> 'f store" where
  "type_default_s R S (SeqBase Clist t lr) \<sigma> = (case alloc (HList []) \<sigma> of (b, \<sigma>') \<Rightarrow> (Inr (HRef b), \<sigma>'))"
| "type_default_s R S (SeqBase Ctuple t lr) \<sigma> = (case alloc (HTuple []) \<sigma> of (b, \<sigma>') \<Rightarrow> (Inr (HRef b), \<sigma>'))"
| "type_default_s R S (DictC c) \<sigma> = (case alloc (HDict []) \<sigma> of (b, \<sigma>') \<Rightarrow> (Inr (HRef b), \<sigma>'))"
| "type_default_s R S t \<sigma> =
     (case type_default R t of Inl e \<Rightarrow> (Inl e, \<sigma>) | Inr x \<Rightarrow> (Inr (hval_of S x), \<sigma>))"

fun seq_obj :: "seqcls \<Rightarrow> 'f hval \<Rightarrow> 'f store \<Rightarrow> 'f hval list option" where
  "seq_obj c (HRef a) \<sigma> =
     (case (heap \<sigma> a, c) of
        (Some (HTuple xs), Ctuple) \<Rightarrow> Some xs
      | (Some (HList xs), Clist) \<Rightarrow> Some xs
      | _ \<Rightarrow> None)"
| "seq_obj c v \<sigma> = None"

fun seqcls_obj :: "seqcls \<Rightarrow> 'f hval list \<Rightarrow> 'f hobj" where
  "seqcls_obj Ctuple ret = HTuple ret"
| "seqcls_obj Clist ret = HList ret"

fun dict_obj :: "'f hval \<Rightarrow> 'f store \<Rightarrow> addr option" where
  "dict_obj (HRef a) \<sigma> = (case heap \<sigma> a of Some (HDict kvs) \<Rightarrow> Some a | _ \<Rightarrow> None)"
| "dict_obj v \<sigma> = None"

definition dict_get :: "'f store \<Rightarrow> addr \<Rightarrow> string \<Rightarrow> 'f hval option" where
  "dict_get \<sigma> a name = (case heap \<sigma> a of Some (HDict kvs) \<Rightarrow> map_of kvs name | _ \<Rightarrow> None)"

definition dict_put :: "'f store \<Rightarrow> addr \<Rightarrow> string \<Rightarrow> 'f hval \<Rightarrow> 'f store" where
  "dict_put \<sigma> r name x =
     (case heap \<sigma> r of
        Some (HDict kvs) \<Rightarrow> \<sigma>\<lparr>heap := (heap \<sigma>)(r \<mapsto> HDict (dict_set kvs name x))\<rparr>
      | _ \<Rightarrow> \<sigma>)"

text \<open>
  The branch that the body of the loop of \<^verbatim>\<open>Dict._check\<close> takes for one name, from the
  specification, the \<open>optional\<close> flag and \<^verbatim>\<open>v[name]\<close> (none when the name is not in
  \<open>v\<close>): raise, skip the name, record \<open>is required\<close>, store the literal default, store
  \<^verbatim>\<open>typ._default()\<close>, or call \<^verbatim>\<open>typ._check(v[name], **kw)\<close>.
\<close>

datatype 'f plan =
    Raise_p exn
  | Skip_p
  | Required_p
  | Const_p "'f pyval"
  | FromType_p "'f vtype"
  | Check_p "'f vtype" "'f hval"

definition Dict_plan :: "bool \<Rightarrow> 'f attr \<Rightarrow> 'f hval option \<Rightarrow> 'f plan" where
  "Dict_plan optional spec present =
     (case spec_len spec of
        None \<Rightarrow> Raise_p TypeError
      | Some n \<Rightarrow>
          (case (if n = 2 then spec_default spec else Inr PNone) of
             Inl e \<Rightarrow> Raise_p e
           | Inr dflt \<Rightarrow>
               (case spec_first_exn spec of
                  Some e \<Rightarrow> Raise_p e
                | None \<Rightarrow>
                    (case present of
                       None \<Rightarrow>
                         if \<not> optional then
                           (if n = 2 then
                              (if dflt = Fromtype then
                                 (case spec_typ spec of
                                    None \<Rightarrow> Raise_p AttributeError
                                  | Some typ \<Rightarrow> FromType_p typ)
                               else Const_p dflt)
                            else Required_p)
                         else Skip_p
                     | Some x \<Rightarrow>
                         (case spec_typ spec of
                            None \<Rightarrow> Raise_p AttributeError
                          | Some typ \<Rightarrow> Check_p typ x)))))"

text \<open>The errors of an exception that \<^verbatim>\<open>except Error, e\<close> catches.\<close>

fun caught :: "exn \<Rightarrow> (string \<times> string) list option" where
  "caught (Error errors) = Some errors"
| "caught e = None"

lemma Dict_plan_size:
  "getattr cls name = Some spec \<Longrightarrow> Dict_plan optional spec present = Check_p t x \<Longrightarrow> size t < size cls"
  by (auto simp: Dict_plan_def split: option.splits sum.splits if_splits dest: getattr_size)

text \<open>
  \<^verbatim>\<open>_check\<close> with the store threaded through: \<open>check_s\<close> dispatches on the class of the
  descriptor, \<open>SeqBase_loop_s\<close> is the loop of \<^verbatim>\<open>SeqBase._check\<close> over the remaining
  elements, and \<open>Dict_loop_s\<close> the loop of \<^verbatim>\<open>Dict._check\<close> over the remaining names, with
  \<open>a\<close> the address of the input \<open>v\<close> and \<open>r\<close> the address of \<open>ret\<close>.
\<close>

function (sequential)
  check_s ::
    "'f runtime \<Rightarrow> 'f store_runtime \<Rightarrow> bool \<Rightarrow> 'f vtype \<Rightarrow> 'f hval \<Rightarrow> 'f store
       \<Rightarrow> (exn + 'f hval) \<times> 'f store"
  and SeqBase_loop_s ::
    "'f runtime \<Rightarrow> 'f store_runtime \<Rightarrow> bool \<Rightarrow> 'f vtype \<Rightarrow> 'f hval list \<Rightarrow> nat
       \<Rightarrow> 'f hval list \<Rightarrow> (string \<times> string) list \<Rightarrow> 'f store
       \<Rightarrow> (exn + ('f hval list \<times> (string \<times> string) list)) \<times> 'f store"
  and Dict_loop_s ::
    "'f runtime \<Rightarrow> 'f store_runtime \<Rightarrow> bool \<Rightarrow> 'f cls \<Rightarrow> addr \<Rightarrow> addr \<Rightarrow> string list
       \<Rightarrow> (string \<times> string) list \<Rightarrow> 'f store
       \<Rightarrow> (exn + (string \<times> string) list) \<times> 'f store"
where
  "check_s R S optional (SeqBase c typ lenrange) v \<sigma> =
     (case seq_obj c v \<sigma> of
        None \<Rightarrow> (Inl (Error [([], ''is not a '' @ seqcls_name c)]), \<sigma>)
      | Some xs \<Rightarrow>
          (case (case lenrange of
                   None \<Rightarrow> None
                 | Some (word, lo, hi) \<Rightarrow> LenRange_verdict word lo hi (Some (length xs))) of
             Some e \<Rightarrow> (Inl e, \<sigma>)
           | None \<Rightarrow>
               (case SeqBase_loop_s R S optional typ xs 0 [] [] \<sigma> of
                  (Inl e, \<sigma>') \<Rightarrow> (Inl e, \<sigma>')
                | (Inr (ret, bad), \<sigma>') \<Rightarrow>
                    if bad \<noteq> [] then (Inl (Error bad), \<sigma>')
                    else (case alloc (seqcls_obj c ret) \<sigma>' of
                            (b, \<sigma>'') \<Rightarrow> (Inr (HRef b), \<sigma>'')))))"
| "check_s R S optional (DictC cls) v \<sigma> =
     (case dict_obj v \<sigma> of
        None \<Rightarrow> (Inl (Error [([], ''is not a dict'')]), \<sigma>)
      | Some a \<Rightarrow>
          (case alloc (HDict []) \<sigma> of
             (r, \<sigma>1) \<Rightarrow>
               (case cls_types cls of
                  None \<Rightarrow> (Inl AttributeError, \<sigma>1)
                | Some types \<Rightarrow>
                    (case Dict_loop_s R S optional cls a r (rt_set_iter R types) [] \<sigma>1 of
                       (Inl e, \<sigma>2) \<Rightarrow> (Inl e, \<sigma>2)
                     | (Inr bad, \<sigma>2) \<Rightarrow>
                         if bad \<noteq> [] then (Inl (Error bad), \<sigma>2) else (Inr (HRef r), \<sigma>2)))))"
| "check_s R S optional t v \<sigma> = (scalar_check_s R S optional t v \<sigma>, \<sigma>)"
| "SeqBase_loop_s R S optional typ [] i ret bad \<sigma> = (Inr (ret, bad), \<sigma>)"
| "SeqBase_loop_s R S optional typ (x # xs) i ret bad \<sigma> =
     (case check_s R S optional typ x \<sigma> of
        (Inr y, \<sigma>') \<Rightarrow> SeqBase_loop_s R S optional typ xs (Suc i) (ret @ [y]) bad \<sigma>'
      | (Inl e, \<sigma>') \<Rightarrow>
          (case caught e of
             Some errors \<Rightarrow>
               SeqBase_loop_s R S optional typ xs (Suc i) ret (bad @ map (seq_rehome i) errors) \<sigma>'
           | None \<Rightarrow> (Inl e, \<sigma>')))"
| "Dict_loop_s R S optional cls a r [] bad \<sigma> = (Inr bad, \<sigma>)"
| "Dict_loop_s R S optional cls a r (name # names) bad \<sigma> =
     (case getattr cls name of
        None \<Rightarrow> (Inl AttributeError, \<sigma>)
      | Some spec \<Rightarrow>
          (case Dict_plan optional spec (dict_get \<sigma> a name) of
             Raise_p e \<Rightarrow> (Inl e, \<sigma>)
           | Skip_p \<Rightarrow> Dict_loop_s R S optional cls a r names bad \<sigma>
           | Required_p \<Rightarrow>
               Dict_loop_s R S optional cls a r names (bad @ [(''.'' @ name, ''is required'')]) \<sigma>
           | Const_p dflt \<Rightarrow>
               Dict_loop_s R S optional cls a r names bad (dict_put \<sigma> r name (hval_of S dflt))
           | FromType_p typ \<Rightarrow>
               (case type_default_s R S typ \<sigma> of
                  (Inl e, \<sigma>') \<Rightarrow> (Inl e, \<sigma>')
                | (Inr x, \<sigma>') \<Rightarrow>
                    Dict_loop_s R S optional cls a r names bad (dict_put \<sigma>' r name x))
           | Check_p typ x \<Rightarrow>
               (case check_s R S optional typ x \<sigma> of
                  (Inr y, \<sigma>') \<Rightarrow>
                    Dict_loop_s R S optional cls a r names bad (dict_put \<sigma>' r name y)
                | (Inl e, \<sigma>') \<Rightarrow>
                    (case caught e of
                       Some errors \<Rightarrow>
                         Dict_loop_s R S optional cls a r names
                           (bad @ map (dict_rehome name) errors) \<sigma>'
                     | None \<Rightarrow> (Inl e, \<sigma>')))))"
  by pat_completeness auto

termination
  by (relation "inv_image (less_than <*lex*> less_than)
        (\<lambda>x. case x of
           Inl (R, S, optional, t, v, \<sigma>) \<Rightarrow> (size t, 0)
         | Inr (Inl (R, S, optional, t, xs, i, ret, bad, \<sigma>)) \<Rightarrow> (size t, Suc (length xs))
         | Inr (Inr (R, S, optional, cls, a, r, names, bad, \<sigma>)) \<Rightarrow> (size cls, Suc (length names)))")
     (auto dest: Dict_plan_size)

section \<open>Notions used to state the properties\<close>

text \<open>
  An outcome of a \<^verbatim>\<open>_check\<close> call that the aggregating loops handle themselves: a
  returned value or a raised \<open>Error\<close>. Anything else leaves the loop at once.
\<close>

definition validation_outcome :: "exn + 'f pyval \<Rightarrow> bool" where
  "validation_outcome r = (case r of Inr y \<Rightarrow> True | Inl (Error errors) \<Rightarrow> True | Inl _ \<Rightarrow> False)"

text \<open>
  What the element at index \<open>i\<close> adds to the error of its sequence: its own entries, each
  path after the decimal index in square brackets.
\<close>

definition elem_errors :: "nat \<Rightarrow> exn + 'f pyval \<Rightarrow> (string \<times> string) list" where
  "elem_errors i r =
     (case r of
        Inl (Error errors) \<Rightarrow>
          map (\<lambda>(path, msg). (''['' @ string_of_nat i @ '']'' @ path, msg)) errors
      | _ \<Rightarrow> [])"

text \<open>
  The body of the loop of \<^verbatim>\<open>Dict._check\<close> for one name, as \<open>check\<close> runs it, and what
  a step does to the two accumulators.
\<close>

definition Dict_step ::
  "'f runtime \<Rightarrow> bool \<Rightarrow> 'f cls \<Rightarrow> (string \<times> 'f pyval) list \<Rightarrow> string \<Rightarrow> 'f step" where
  "Dict_step R optional cls kvs name =
     (case getattr cls name of
        None \<Rightarrow> Raise AttributeError
      | Some spec \<Rightarrow>
          Dict_field R optional name spec (dict_has kvs name)
            (case spec_typ spec of
               None \<Rightarrow> None
             | Some typ \<Rightarrow>
                 (case map_of kvs name of
                    None \<Rightarrow> None
                  | Some x \<Rightarrow> Some (check R optional typ x))))"

text \<open>
  A required field is declared by a specification of length other than two that starts
  with a descriptor; it is missing when its name is not a key of the input.
\<close>

definition is_required :: "'f cls \<Rightarrow> string \<Rightarrow> bool" where
  "is_required cls name =
     (case getattr cls name of
        None \<Rightarrow> False
      | Some spec \<Rightarrow> spec_typ spec \<noteq> None \<and> spec_len spec \<noteq> Some 2)"

definition missing_required :: "'f cls \<Rightarrow> (string \<times> 'f pyval) list \<Rightarrow> string \<Rightarrow> bool" where
  "missing_required cls kvs name = (is_required cls name \<and> \<not> dict_has kvs name)"

text \<open>
  A field without defect, read from the schema and the input: its name resolves to a
  specification that starts with a descriptor, and either the input has the name and the
  descriptor accepts the value found there, or the input lacks the name and the
  specification is a pair of the descriptor and a default, the default being a value or,
  for \<^verbatim>\<open>fromtype\<close>, the default of the descriptor where it has one.
\<close>

definition field_without_defect ::
  "'f runtime \<Rightarrow> 'f cls \<Rightarrow> (string \<times> 'f pyval) list \<Rightarrow> string \<Rightarrow> bool" where
  "field_without_defect R cls kvs name =
     (case getattr cls name of
        None \<Rightarrow> False
      | Some spec \<Rightarrow>
          (case spec_typ spec of
             None \<Rightarrow> False
           | Some typ \<Rightarrow>
               (case map_of kvs name of
                  Some x \<Rightarrow> \<not> isl (check R False typ x)
                | None \<Rightarrow>
                    spec_len spec = Some 2
                    \<and> (case spec_default spec of
                         Inl e \<Rightarrow> False
                       | Inr dflt \<Rightarrow>
                           if dflt = Fromtype then \<not> isl (type_default R typ) else True))))"

definition required_entry :: "string \<Rightarrow> string \<times> string" where
  "required_entry name = (''.'' @ name, ''is required'')"

text \<open>
  The descriptor that a name resolves to, the outcome of \<^verbatim>\<open>typ._check(v[name], **kw)\<close>
  for a declared name that is a key of the input, and what that outcome adds to the
  error and to the output.
\<close>

definition field_typ :: "'f cls \<Rightarrow> string \<Rightarrow> 'f vtype option" where
  "field_typ cls name = (case getattr cls name of None \<Rightarrow> None | Some spec \<Rightarrow> spec_typ spec)"

definition checked_field ::
  "'f runtime \<Rightarrow> bool \<Rightarrow> 'f cls \<Rightarrow> (string \<times> 'f pyval) list \<Rightarrow> string \<Rightarrow> (exn + 'f pyval) option" where
  "checked_field R optional cls kvs name =
     (case field_typ cls name of
        None \<Rightarrow> None
      | Some typ \<Rightarrow>
          (case map_of kvs name of
             None \<Rightarrow> None
           | Some x \<Rightarrow> Some (check R optional typ x)))"

definition field_errors ::
  "'f runtime \<Rightarrow> bool \<Rightarrow> 'f cls \<Rightarrow> (string \<times> 'f pyval) list \<Rightarrow> string \<Rightarrow> (string \<times> string) list" where
  "field_errors R optional cls kvs name =
     (case checked_field R optional cls kvs name of
        Some (Inl (Error errors)) \<Rightarrow> map (dict_rehome name) errors
      | _ \<Rightarrow> [])"

definition field_value ::
  "'f runtime \<Rightarrow> bool \<Rightarrow> 'f cls \<Rightarrow> (string \<times> 'f pyval) list \<Rightarrow> string \<Rightarrow> (string \<times> 'f pyval) option" where
  "field_value R optional cls kvs name =
     (case checked_field R optional cls kvs name of
        Some (Inr y) \<Rightarrow> Some (name, y)
      | _ \<Rightarrow> None)"

text \<open>
  A runtime for the worked examples: a set is iterated in the order of insertion, and
  there are no floats and no text beyond byte strings.
\<close>

definition example_runtime :: "unit runtime" where
  "example_runtime =
     \<lparr> rt_set_iter = (\<lambda>names. names),
       rt_str = (\<lambda>v. []),
       rt_int_of_unicode = (\<lambda>u. None),
       rt_unicode_lower = (\<lambda>u. u),
       rt_float_of_text = (\<lambda>v. None),
       rt_float_of_int = (\<lambda>n. Some ()),
       rt_int_of_float = (\<lambda>f. FInt 0),
       rt_float_zero = (),
       rt_float_truth = (\<lambda>f. False),
       rt_le = (\<lambda>a b. False),
       rt_eq = (\<lambda>a b. False) \<rparr>"

fun step_bad :: "'f step \<Rightarrow> (string \<times> string) list" where
  "step_bad (Bad errors) = errors"
| "step_bad _ = []"

fun step_put :: "'f step \<Rightarrow> (string \<times> 'f pyval) list \<Rightarrow> (string \<times> 'f pyval) list" where
  "step_put (Put name x) ret = dict_set ret name x"
| "step_put _ ret = ret"

fun is_Raise :: "'f step \<Rightarrow> bool" where
  "is_Raise (Raise e) = True"
| "is_Raise _ = False"

text \<open>The schema \<^verbatim>\<open>class AB(types.Dict): a = types.Int(); b = types.Int()\<close>.\<close>

definition AB :: "'f cls" where
  "AB = Class ''AB'' [Dict] [(''a'', Bare Int_t), (''b'', Bare Int_t)]"

text \<open>
  The schema
  \<^verbatim>\<open>class AC(types.Dict): a = types.Int(); c = (types.Str(10), 'x'); d = (types.Int(), fromtype)\<close>.
\<close>

definition AC :: "'f cls" where
  "AC = Class ''AC'' [Dict]
          [(''a'', Bare Int_t), (''c'', Tup (Str 10 None) [PStr ''x'']), (''d'', Tup Int_t [Fromtype])]"





definition precedes :: "'a list \<Rightarrow> 'a \<Rightarrow> 'a \<Rightarrow> bool" where
  "precedes l x y = (\<exists>us vs. l = us @ x # vs \<and> y \<in> set vs)"



text \<open>
  A store is in order when nothing lies at or beyond \<open>fresh\<close>. \<open>frame W \<sigma> \<sigma>'\<close>: the store
  \<open>\<sigma>'\<close> is in order, has every address of \<open>\<sigma>\<close>, and every object of \<open>\<sigma>\<close> outside
  \<open>W\<close> is the same in \<open>\<sigma>'\<close>.
\<close>

definition store_ok :: "'f store \<Rightarrow> bool" where
  "store_ok \<sigma> = (\<forall>a. fresh \<sigma> \<le> a \<longrightarrow> heap \<sigma> a = None)"

definition frame :: "addr set \<Rightarrow> 'f store \<Rightarrow> 'f store \<Rightarrow> bool" where
  "frame W \<sigma> \<sigma>' =
     (store_ok \<sigma>' \<and> fresh \<sigma> \<le> fresh \<sigma>'
      \<and> (\<forall>a. a < fresh \<sigma> \<and> a \<notin> W \<longrightarrow> heap \<sigma>' a = heap \<sigma> a))"

definition holds_dict :: "'f store \<Rightarrow> addr \<Rightarrow> bool" where
  "holds_dict \<sigma> r = (case heap \<sigma> r of Some (HDict kvs) \<Rightarrow> True | _ \<Rightarrow> False)"

text \<open>A store for the worked example: the one \<^verbatim>\<open>dict\<close> \<^verbatim>\<open>{'a': '1'}\<close> at address 0.\<close>

definition example_store_runtime :: "unit store_runtime" where
  "example_store_runtime =
     \<lparr> rs_const = (\<lambda>v. HNone), rs_in = (\<lambda>h v items. False), rs_str = (\<lambda>h v. []) \<rparr>"

definition example_store :: "unit store" where
  "example_store = \<lparr> heap = [0 \<mapsto> HDict [(''a'', HStr ''1'')]], fresh = 1 \<rparr>"

section \<open>Properties of the formatter\<close>

lemma format_loop_map: "format_loop es ret = ret @ map spec_phrase es"
  by (induction es ret rule: format_loop.induct)
     (simp_all add: spec_phrase_def lstrip_dot_def Let_def)

lemma join_Cons: "ys \<noteq> [] \<Longrightarrow> join sep (x # ys) = x @ sep @ join sep ys"
  by (cases ys) simp_all

lemma join_commas_snoc:
  "join '', '' (xs @ [z]) = spec_commas xs @ z"
  by (induction xs) (simp_all add: join_Cons)

lemma kooljoin_spec_join: "kooljoin ''and'' ps = spec_join ps"
proof (cases "length ps < 3")
  case True
  then consider "ps = []" | a where "ps = [a]" | a b where "ps = [a, b]"
    by (cases ps; cases "tl ps"; cases "tl (tl ps)") auto
  then show ?thesis
    by cases (simp_all add: kooljoin_def spec_join_def)
next
  case False
  then have ne: "ps \<noteq> []" by auto
  then have upd: "ps[length ps - 1 := ''and '' @ ps ! (length ps - 1)]
                  = butlast ps @ [''and '' @ last ps]"
    by (induction ps rule: rev_induct) (simp_all add: nth_append)
  from False obtain a b c rest where "ps = a # b # c # rest"
    by (cases ps; cases "tl ps"; cases "tl (tl ps)") auto
  then have "spec_join ps = spec_commas (butlast ps) @ ''and '' @ last ps"
    by (simp add: spec_join_def)
  with False upd show ?thesis
    by (simp add: kooljoin_def join_commas_snoc)
qed

text \<open>
  C9. \<open>format\<close> turns the pairs, in their order, into one phrase each (leading dots of
  the path stripped, the word \<open>value\<close> for an empty path, a space between path and
  message) and joins them: one phrase as it is, two with \<open>and\<close> and no comma, three or
  more separated by commas with \<open>and\<close> before the last one.
\<close>

theorem format_by_spec: "format errors = spec_join (map spec_phrase errors)"
  by (simp add: format_def format_loop_map kooljoin_spec_join)

section \<open>Errors are never empty\<close>

lemma seq_rehome_prefix:
  "seq_rehome i = (\<lambda>(path, msg). (''['' @ string_of_nat i @ '']'' @ path, msg))"
  by (rule ext) (simp add: seq_rehome_def split_def)

lemma elem_errors_simps [simp]:
  "elem_errors i (Inr y) = []"
  "elem_errors i (Inl (Error errors)) = map (seq_rehome i) errors"
  by (simp_all add: elem_errors_def seq_rehome_prefix)

lemma LenRange_check_Error_nonempty:
  "LenRange_check w lo hi v = Inl (Error es) \<Longrightarrow> es \<noteq> []"
  by (auto simp: LenRange_check_def LenRange_verdict_def LenRange_phrase_def
           split: option.splits if_splits)

lemma numcls_call_not_Error: "numcls_call R c v \<noteq> Inl (Error es)"
  by (cases c; cases v) (auto split: option.splits float_int.splits)

lemma strcls_call_not_Error: "strcls_call R c v \<noteq> Inl (Error es)"
  by (cases c; cases v) (auto split: option.splits)

lemma SeqBase_loop_not_Error: "SeqBase_loop rs i ret bad \<noteq> Inl (Error es)"
  by (induction rs i ret bad rule: SeqBase_loop.induct) simp_all

lemma type_default_not_Error: "type_default R t \<noteq> Inl (Error es)"
  by (cases "(R, t)" rule: type_default.cases) (auto split: list.splits strcls.splits)

lemma py_getitem_not_Error: "py_getitem v i \<noteq> Inl (Error es)"
  by (cases v) auto

lemma Dict_field_not_Error:
  "Dict_field R optional name spec present checked \<noteq> Raise (Error es)"
  using type_default_not_Error[of R _ es] py_getitem_not_Error[of _ _ es]
  by (cases spec)
     (auto simp: Dict_field_def split: option.splits sum.splits exn.splits list.splits if_splits)

lemma Dict_loop_not_Error:
  "\<forall>s\<in>set steps. \<forall>es. s \<noteq> Raise (Error es) \<Longrightarrow> Dict_loop steps ret bad \<noteq> Inl (Error es)"
  by (induction steps ret bad rule: Dict_loop.induct) auto

lemma check_Error_nonempty: "check R optional t v = Inl (Error es) \<Longrightarrow> es \<noteq> []"
proof (cases t)
  case (LenRange w lo hi)
  then show "check R optional t v = Inl (Error es) \<Longrightarrow> es \<noteq> []"
    by (auto dest: LenRange_check_Error_nonempty)
next
  case (NumberBase c)
  then show "check R optional t v = Inl (Error es) \<Longrightarrow> es \<noteq> []"
    using numcls_call_not_Error[of R c v]
    by (auto simp: NumberBase_check_def split: sum.splits exn.splits)
next
  case (BoundedNumber c lo hi)
  then show "check R optional t v = Inl (Error es) \<Longrightarrow> es \<noteq> []"
    using numcls_call_not_Error[of R c v]
    by (auto simp: BoundedNumber_check_def NumberBase_check_def split: sum.splits exn.splits if_splits)
next
  case Bool
  then show "check R optional t v = Inl (Error es) \<Longrightarrow> es \<noteq> []"
    by (cases v) (auto simp: Bool_check_def split: sum.splits if_splits)
next
  case (Enum items)
  then show "check R optional t v = Inl (Error es) \<Longrightarrow> es \<noteq> []"
    by (auto simp: Enum_check_def split: if_splits)
next
  case (StrBase c w lo hi)
  then show "check R optional t v = Inl (Error es) \<Longrightarrow> es \<noteq> []"
    using strcls_call_not_Error[of R c]
    by (auto simp: StrBase_check_def split: sum.splits exn.splits dest: LenRange_check_Error_nonempty)
next
  case (SeqBase c ty lr)
  then show "check R optional t v = Inl (Error es) \<Longrightarrow> es \<noteq> []"
    using SeqBase_loop_not_Error[of _ 0 "[]" "[]"]
    by (auto simp: SeqBase_finish_def split: sum.splits if_splits option.splits prod.splits
             dest: LenRange_check_Error_nonempty)
next
  case (DictC cls)
  have "Dict_loop (map (\<lambda>name.
                            case getattr cls name of
                              None \<Rightarrow> Raise AttributeError
                            | Some spec \<Rightarrow>
                                Dict_field R optional name spec (dict_has kvs name)
                                  (case spec_typ spec of
                                     None \<Rightarrow> None
                                   | Some typ \<Rightarrow>
                                       (case map_of kvs name of
                                          None \<Rightarrow> None
                                        | Some x \<Rightarrow> Some (check R optional typ x))))
                         names) [] [] \<noteq> Inl (Error es')" for kvs names es'
    by (rule Dict_loop_not_Error) (auto simp: Dict_field_not_Error split: option.splits)
  with DictC show "check R optional t v = Inl (Error es) \<Longrightarrow> es \<noteq> []"
    by (auto simp: Dict_finish_def split: sum.splits if_splits option.splits prod.splits)
qed

lemma SeqBase_loop_all:
  "\<forall>r\<in>set rs. validation_outcome r \<Longrightarrow>
   SeqBase_loop rs i ret bad =
     Inr (ret @ map projr (filter (\<lambda>r. \<not> isl r) rs),
          bad @ concat (map (\<lambda>(j, r). elem_errors j r) (List.enumerate i rs)))"
  by (induction rs i ret bad rule: SeqBase_loop.induct)
     (simp_all add: validation_outcome_def)

lemma enumerate_concat_nth:
  "concat (map (\<lambda>(j, r). f j r) (List.enumerate i rs))
     = concat (map (\<lambda>j. f (i + j) (rs ! j)) [0..<length rs])"
proof (induction rs arbitrary: i)
  case Nil
  then show ?case by simp
next
  case (Cons r rs)
  have "[0..<length (r # rs)] = 0 # map Suc [0..<length rs]"
    by (simp add: upt_conv_Cons map_Suc_upt del: upt_Suc)
  then show ?case
    using Cons[of "Suc i"] by (simp add: comp_def del: upt_Suc)
qed

text \<open>
  Where every element check returns or raises \<open>Error\<close>, \<^verbatim>\<open>SeqBase._check\<close> on an input
  of its container kind that passes the length range checks every element, whatever the
  outcome of the elements before it: when an element fails, the check fails with the
  errors of all failing elements in order, each path prefixed with \<open>[i]\<close> for the index
  \<open>i\<close> of its element; otherwise it returns the container of the checked elements. The
  hypothesis on the element checks cannot be dropped: an element check that raises
  another exception ends the loop, as the evaluation after this lemma shows.
\<close>

lemma SeqBase_check_aggregates:
  assumes kind: "isinstance_seq v c"
    and len: "case lenrange of
                None \<Rightarrow> True
              | Some (word, lo, hi) \<Rightarrow>
                  lo \<le> int (length (seq_items v)) \<and> int (length (seq_items v)) \<le> hi"
    and elems: "\<forall>x\<in>set (seq_items v). validation_outcome (check R optional typ x)"
  shows "check R optional (SeqBase c typ lenrange) v =
           (if \<exists>x\<in>set (seq_items v). isl (check R optional typ x)
            then Inl (Error (concat (map (\<lambda>i. elem_errors i (check R optional typ (seq_items v ! i)))
                                       [0..<length (seq_items v)])))
            else Inr (seqcls_call c (map (\<lambda>x. projr (check R optional typ x)) (seq_items v))))"
proof -
  let ?xs = "seq_items v"
  let ?rs = "map (\<lambda>x. check R optional typ x) ?xs"
  from kind have lenv: "py_len v = Some (length ?xs)"
    by (cases v; cases c) simp_all
  from len lenv have lr: "(case lenrange of None \<Rightarrow> Inr v
                          | Some (word, lo, hi) \<Rightarrow> LenRange_check word lo hi v) = Inr v"
    by (auto simp: LenRange_check_def LenRange_verdict_def split: option.splits)
  from elems have all: "\<forall>r\<in>set ?rs. validation_outcome r" by simp
  have bad: "concat (map (\<lambda>(j, r). elem_errors j r) (List.enumerate 0 ?rs))
               = concat (map (\<lambda>i. elem_errors i (check R optional typ (?xs ! i))) [0..<length ?xs])"
  proof -
    have "concat (map (\<lambda>(j, r). elem_errors j r) (List.enumerate 0 ?rs))
            = concat (map (\<lambda>j. elem_errors j (?rs ! j)) [0..<length ?xs])"
      by (simp add: enumerate_concat_nth)
    also have "\<dots> = concat (map (\<lambda>i. elem_errors i (check R optional typ (?xs ! i)))
                              [0..<length ?xs])"
      by (rule arg_cong[where f = concat], rule map_cong) simp_all
    finally show ?thesis .
  qed
  have nonempty: "(concat (map (\<lambda>i. elem_errors i (check R optional typ (?xs ! i))) [0..<length ?xs]) \<noteq> [])
                    = (\<exists>x\<in>set ?xs. isl (check R optional typ x))"
  proof
    assume "concat (map (\<lambda>i. elem_errors i (check R optional typ (?xs ! i))) [0..<length ?xs]) \<noteq> []"
    then obtain i where i: "i < length ?xs" and e: "elem_errors i (check R optional typ (?xs ! i)) \<noteq> []"
      by auto
    then have "isl (check R optional typ (?xs ! i))"
      by (cases "check R optional typ (?xs ! i)") simp_all
    with i show "\<exists>x\<in>set ?xs. isl (check R optional typ x)"
      using nth_mem by blast
  next
    assume "\<exists>x\<in>set ?xs. isl (check R optional typ x)"
    then obtain i where i: "i < length ?xs" and l: "isl (check R optional typ (?xs ! i))"
      by (auto simp: in_set_conv_nth)
    from elems i have "validation_outcome (check R optional typ (?xs ! i))" by simp
    with l obtain es where es: "check R optional typ (?xs ! i) = Inl (Error es)"
      by (auto simp: validation_outcome_def split: sum.splits exn.splits)
    then have "es \<noteq> []" by (rule check_Error_nonempty)
    with es have "elem_errors i (check R optional typ (?xs ! i)) \<noteq> []" by simp
    with i show "concat (map (\<lambda>i. elem_errors i (check R optional typ (?xs ! i))) [0..<length ?xs]) \<noteq> []"
      by auto
  qed
  have ret: "\<not> (\<exists>x\<in>set ?xs. isl (check R optional typ x)) \<Longrightarrow>
             map projr (filter (\<lambda>r. \<not> isl r) ?rs) = map (\<lambda>x. projr (check R optional typ x)) ?xs"
    by (simp add: filter_map comp_def)
  show ?thesis
    using kind lr nonempty ret
    by (simp add: SeqBase_loop_all[OF all] SeqBase_finish_def bad comp_def del: upt_Suc)
qed


lemmas text_eval =
  int_of_str_def strip_def is_space_def digit_value_def string_of_int_def string_of_nat.simps
  digit_char_def

lemma SeqBase_check_aggregates_example:
  "\<forall>R optional.
     check R optional (List_t Int_t None None) (PList [PStr ''1'', PStr ''bad''])
       = Inl (Error [(''[1]'', ''is not a valid int'')])"
proof (intro allI)
  fix R :: "'f runtime" and optional
  have one: "NumberBase_check R Cint (PStr ''1'') = Inr (PInt 1)"
    by (simp add: NumberBase_check_def text_eval)
  have bad: "NumberBase_check R Cint (PStr ''bad'')
               = Inl (Error [([], ''is not a valid int'')])"
    by (simp add: NumberBase_check_def text_eval)
  show "check R optional (List_t Int_t None None) (PList [PStr ''1'', PStr ''bad''])
          = Inl (Error [(''[1]'', ''is not a valid int'')])"
    using SeqBase_check_aggregates
            [of "PList [PStr ''1'', PStr ''bad'']" Clist None R optional "NumberBase Cint"]
    by (simp add: one bad List_t_def Int_t_def mk_SeqBase_def validation_outcome_def
                  seq_rehome_def text_eval upt_conv_Cons del: upt_Suc)
qed

text \<open>
  C2. \<^verbatim>\<open>SeqBase._check\<close> does not attempt every element of every input of its container
  kind, and its failure does not carry the errors of every bad element. The loop catches
  \<open>Error\<close> alone (\<^verbatim>\<open>except Error, e\<close>), and \<^verbatim>\<open>NumberBase._check\<close> lets the
  \<^verbatim>\<open>TypeError\<close> of \<^verbatim>\<open>int(None)\<close> through. Against \<^verbatim>\<open>List(Int())\<close>, the list
  \<^verbatim>\<open>['bad']\<close> fails with the entry \<open>('[0]', 'is not a valid int')\<close>; the list
  \<^verbatim>\<open>['bad', None]\<close> ends in \<^verbatim>\<open>TypeError\<close>, and the entry of the element at index
  0 is lost with it; the list \<^verbatim>\<open>[None, 'bad', '1']\<close> ends in the same
  \<^verbatim>\<open>TypeError\<close> at index 0, whatever the elements after it are.
\<close>

theorem SeqBase_check_stops_at_TypeError:
  "check R optional (List_t Int_t None None) (PList [PStr ''bad''])
     = Inl (Error [(''[0]'', ''is not a valid int'')])
   \<and> check R optional (List_t Int_t None None) (PList [PStr ''bad'', PNone]) = Inl TypeError
   \<and> check R optional (List_t Int_t None None) (PList (PNone # rest)) = Inl TypeError"
proof -
  have bad: "NumberBase_check R Cint (PStr ''bad'') = Inl (Error [([], ''is not a valid int'')])"
    by (simp add: NumberBase_check_def text_eval)
  have none: "NumberBase_check R Cint PNone = Inl TypeError"
    by (simp add: NumberBase_check_def)
  show ?thesis
    by (simp add: bad none List_t_def Int_t_def mk_SeqBase_def seq_rehome_def
                  SeqBase_finish_def text_eval)
qed


section \<open>Scalar descriptors at the inputs where they leave their description\<close>

text \<open>
  C5. \<^verbatim>\<open>LenRange._check\<close> computes the phrase \<open>exactly N unit\<close> for equal bounds and
  then assigns \<open>s\<close> again in the \<^verbatim>\<open>if min: ... else: ...\<close> that follows, so the message
  for equal bounds is the \<open>between\<close> one (or \<open>no more than\<close> for \<open>0\<close>): a string of three
  characters against \<^verbatim>\<open>Str(5, 5)\<close> is told \<open>must be between 5 and 5 characters\<close>.
\<close>

theorem LenRange_exactly_is_overwritten:
  "LenRange_phrase word n n =
     Some (if n \<noteq> 0
           then ''between '' @ string_of_int n @ '' and '' @ string_of_int n @ '' '' @ word
           else ''no more than '' @ string_of_int n @ '' '' @ word)
   \<and> check R optional (Str 5 (Some 5)) (PStr ''abc'')
       = Inl (Error [([], ''must be between 5 and 5 characters'')])"
  by (simp add: LenRange_phrase_def Str_def mk_StrBase_def LenRange_init_def StrBase_check_def
                LenRange_check_def LenRange_verdict_def text_eval)

text \<open>
  C7. \<^verbatim>\<open>NumberBase._check\<close> catches \<^verbatim>\<open>ValueError\<close> only: \<^verbatim>\<open>int(None)\<close> and
  \<^verbatim>\<open>int(['1'])\<close> raise \<^verbatim>\<open>TypeError\<close>, which leaves \<^verbatim>\<open>Int()._check\<close> as it is and
  not as an \<open>Error\<close>.
\<close>

theorem NumberBase_check_lets_TypeError_through:
  "check R optional Int_t PNone = Inl TypeError
   \<and> check R optional Int_t (PList [PStr ''1'']) = Inl TypeError"
  by (simp add: Int_t_def NumberBase_check_def)

text \<open>
  On byte strings \<^verbatim>\<open>Bool._check\<close> does what its description says, and the other scalar
  descriptors return an already coerced value as it is.
\<close>

lemma Bool_check_on_str:
  "check R optional Bool (PStr s) = Inr (PBool (s \<noteq> [] \<and> map lower_char s \<notin> set falsevalues))"
  by (simp add: Bool_check_def)

lemma coercion_idempotent_elsewhere:
  "check R optional Int_t (PInt n) = Inr (PInt n)"
  "check R optional Float (PFloat f) = Inr (PFloat f)"
  "py_le R lo (PInt n) \<Longrightarrow> py_le R (PInt n) hi \<Longrightarrow>
     check R optional (BoundedInt lo hi) (PInt n) = Inr (PInt n)"
  "py_le R lo (PFloat f) \<Longrightarrow> py_le R (PFloat f) hi \<Longrightarrow>
     check R optional (BoundedFloat lo hi) (PFloat f) = Inr (PFloat f)"
  "check R optional Bool (PBool False) = Inr (PBool False)"
  "py_in R v items \<Longrightarrow> check R optional (Enum items) v = Inr v"
  "a \<le> int (length s) \<Longrightarrow> int (length s) \<le> b \<Longrightarrow>
     check R optional (StrBase Cstr word a b) (PStr s) = Inr (PStr s)"
  "a \<le> int (length u) \<Longrightarrow> int (length u) \<le> b \<Longrightarrow>
     check R optional (StrBase Cunicode word a b) (PUnicode u) = Inr (PUnicode u)"
  by (simp_all add: Int_t_def Float_def BoundedInt_def BoundedFloat_def NumberBase_check_def
                    BoundedNumber_check_def Bool_check_def Enum_check_def StrBase_check_def
                    LenRange_check_def LenRange_verdict_def)

text \<open>
  C8. \<^verbatim>\<open>Bool._check\<close> calls \<^verbatim>\<open>v.lower()\<close> on every truthy input; on \<^verbatim>\<open>True\<close> and on
  \<^verbatim>\<open>1\<close>, which have no such method, the call raises \<^verbatim>\<open>AttributeError\<close> instead of
  returning \<^verbatim>\<open>True\<close>.
\<close>

theorem Bool_check_raises_on_true:
  "check R optional Bool (PBool True) = Inl AttributeError
   \<and> check R optional Bool (PInt 1) = Inl AttributeError"
  by (simp add: Bool_check_def)

text \<open>
  C6. Coercion by \<^verbatim>\<open>Bool\<close> is not idempotent: the text \<open>true\<close> is coerced to
  \<^verbatim>\<open>True\<close>, and checking that \<^verbatim>\<open>True\<close> again raises \<^verbatim>\<open>AttributeError\<close>.
\<close>

theorem Bool_check_not_idempotent:
  "check R optional Bool (PStr ''true'') = Inr (PBool True)
   \<and> check R optional Bool (PBool True) = Inl AttributeError"
  by (simp add: Bool_check_def lower_char_def falsevalues_def)

section \<open>Record schemas: aggregation of field errors\<close>

lemma check_DictC:
  "check R optional (DictC cls) (PDict kvs) =
     (case cls_types cls of
        None \<Rightarrow> Inl AttributeError
      | Some types \<Rightarrow>
          Dict_finish (Dict_loop (map (Dict_step R optional cls kvs) (rt_set_iter R types)) [] []))"
  unfolding Dict_step_def[abs_def] by (simp split: option.splits)

lemma Dict_loop_no_Raise:
  "\<forall>s\<in>set steps. \<not> is_Raise s \<Longrightarrow>
   Dict_loop steps ret bad = Inr (fold step_put steps ret, bad @ concat (map step_bad steps))"
  by (induction steps ret bad rule: Dict_loop.induct) simp_all

lemma Dict_step_missing_required:
  "missing_required cls kvs name \<Longrightarrow> Dict_step R False cls kvs name = Bad [required_entry name]"
  by (cases "getattr cls name"; cases "the (getattr cls name)")
     (auto simp: missing_required_def is_required_def Dict_step_def Dict_field_def
                 required_entry_def split: option.splits)

lemma Dict_step_without_defect:
  assumes "field_without_defect R cls kvs name"
  shows "\<exists>x. Dict_step R False cls kvs name = Put name x"
proof -
  from assms obtain spec t where spec: "getattr cls name = Some spec" "spec_typ spec = Some t"
    by (auto simp: field_without_defect_def split: option.splits)
  then have first: "spec_first_exn spec = None" by (cases spec) auto
  from spec obtain n where n: "spec_len spec = Some n" by (cases spec) auto
  show ?thesis
  proof (cases "map_of kvs name")
    case (Some x)
    with assms spec obtain y where y: "check R False t x = Inr y"
      by (cases "check R False t x") (auto simp: field_without_defect_def)
    have "n = 2 \<Longrightarrow> \<exists>d. spec_default spec = Inr d"
      using spec n by (cases spec) (auto split: list.splits)
    with spec first n Some y show ?thesis
      by (auto simp: Dict_step_def Dict_field_def dict_has_def)
  next
    case None
    with assms spec have two: "spec_len spec = Some 2"
      by (simp add: field_without_defect_def)
    from None assms spec obtain d where d: "spec_default spec = Inr d"
      and dflt: "d = Fromtype \<Longrightarrow> \<not> isl (type_default R t)"
      by (cases "spec_default spec") (auto simp: field_without_defect_def split: if_splits)
    show ?thesis
    proof (cases "d = Fromtype")
      case True
      with dflt obtain y where "type_default R t = Inr y"
        by (cases "type_default R t") auto
      with spec first two d None True show ?thesis
        by (simp add: Dict_step_def Dict_field_def dict_has_def)
    next
      case False
      with spec first two d None show ?thesis
        by (simp add: Dict_step_def Dict_field_def dict_has_def)
    qed
  qed
qed

lemma required_errors:
  assumes "\<forall>name\<in>set names. missing_required cls kvs name \<or> field_without_defect R cls kvs name"
  shows "concat (map step_bad (map (Dict_step R False cls kvs) names))
           = map required_entry (filter (missing_required cls kvs) names)"
  using assms
proof (induction names)
  case Nil
  then show ?case by simp
next
  case (Cons name names)
  show ?case
  proof (cases "missing_required cls kvs name")
    case True
    with Cons show ?thesis by (simp add: Dict_step_missing_required)
  next
    case False
    with Cons.prems have "field_without_defect R cls kvs name" by simp
    then obtain x where "Dict_step R False cls kvs name = Put name x"
      using Dict_step_without_defect by blast
    then have "step_bad (Dict_step R False cls kvs name) = []" by simp
    with False Cons show ?thesis by simp
  qed
qed

lemma inj_required_entry: "inj required_entry"
  by (auto simp: inj_on_def required_entry_def)

text \<open>
  C1. When the required fields absent from the input are the only defects of a record,
  \<^verbatim>\<open>Dict._check\<close> fails with an \<open>Error\<close> that holds the entry
  \<open>('.name', 'is required')\<close> once for each missing required field and nothing else: as
  many entries as missing fields. Every other field of the schema is without defect in
  the sense of \<open>field_without_defect\<close>: present in the input with a value that its
  descriptor accepts, or absent and declared with a default. That such a field adds no
  entry is part of what is proved (\<open>Dict_step_without_defect\<close>). The iteration over
  \<^verbatim>\<open>cls._types\<close> visits every name once.
\<close>

theorem Dict_check_missing_required:
  assumes types: "cls_types cls = Some types"
    and once: "distinct (rt_set_iter R types)"
    and every: "set (rt_set_iter R types) = set types"
    and others: "\<forall>name\<in>set types.
                   missing_required cls kvs name \<or> field_without_defect R cls kvs name"
    and some: "\<exists>name\<in>set types. missing_required cls kvs name"
  shows "\<exists>errors.
           check R False (DictC cls) (PDict kvs) = Inl (Error errors)
           \<and> set errors = required_entry ` {name \<in> set types. missing_required cls kvs name}
           \<and> length errors = card {name \<in> set types. missing_required cls kvs name}
           \<and> distinct errors"
proof -
  let ?names = "rt_set_iter R types"
  let ?steps = "map (Dict_step R False cls kvs) ?names"
  let ?errors = "map required_entry (filter (missing_required cls kvs) ?names)"
  from others every
  have ok: "\<forall>name\<in>set ?names.
              missing_required cls kvs name \<or> field_without_defect R cls kvs name"
    by simp
  have "\<not> is_Raise (Dict_step R False cls kvs name)" if "name \<in> set ?names" for name
  proof (cases "missing_required cls kvs name")
    case True
    then show ?thesis by (simp add: Dict_step_missing_required)
  next
    case False
    with ok that have "field_without_defect R cls kvs name" by blast
    then obtain x where "Dict_step R False cls kvs name = Put name x"
      using Dict_step_without_defect by blast
    then show ?thesis by simp
  qed
  then have "\<forall>s\<in>set ?steps. \<not> is_Raise s" by auto
  then have "Dict_loop ?steps [] [] = Inr (fold step_put ?steps [], [] @ concat (map step_bad ?steps))"
    by (rule Dict_loop_no_Raise)
  then have loop: "Dict_loop ?steps [] [] = Inr (fold step_put ?steps [], ?errors)"
    by (simp only: required_errors[OF ok] append_Nil)
  from some every have ne: "?errors \<noteq> []"
    by (auto simp: filter_empty_conv)
  from types loop ne have res: "check R False (DictC cls) (PDict kvs) = Inl (Error ?errors)"
    by (simp add: check_DictC Dict_finish_def del: check.simps)
  from every have set: "set ?errors = required_entry ` {name \<in> set types. missing_required cls kvs name}"
    by auto
  from once have d: "distinct (filter (missing_required cls kvs) ?names)" by simp
  then have dist: "distinct ?errors"
    by (simp add: distinct_map inj_on_subset[OF inj_required_entry])
  have "length ?errors = card (set (filter (missing_required cls kvs) ?names))"
    using distinct_card[OF d] by simp
  also have "\<dots> = card {name \<in> set types. missing_required cls kvs name}"
    using every by (auto intro: arg_cong[where f = card])
  finally have len: "length ?errors = card {name \<in> set types. missing_required cls kvs name}" .
  from res set len dist show ?thesis by blast
qed


lemma Dict_step_optional:
  assumes "field_typ cls name = Some t"
  shows "Dict_step R True cls kvs name =
           (case map_of kvs name of
              None \<Rightarrow> Skip
            | Some x \<Rightarrow>
                (case check R True t x of
                   Inr y \<Rightarrow> Put name y
                 | Inl (Error errors) \<Rightarrow> Bad (map (dict_rehome name) errors)
                 | Inl e \<Rightarrow> Raise e))"
proof -
  from assms obtain spec where spec: "getattr cls name = Some spec" "spec_typ spec = Some t"
    by (auto simp: field_typ_def split: option.splits)
  then obtain n where n: "spec_len spec = Some n" by (cases spec) auto
  from spec have first: "spec_first_exn spec = None" by (cases spec) auto
  have dflt: "n = 2 \<Longrightarrow> \<exists>d. spec_default spec = Inr d"
    using spec n by (cases spec) (auto split: list.splits)
  show ?thesis
  proof (cases "map_of kvs name")
    case None
    with spec n first dflt show ?thesis
      by (auto simp: Dict_step_def Dict_field_def dict_has_def)
  next
    case (Some x)
    with spec n first dflt show ?thesis
      by (auto simp: Dict_step_def Dict_field_def dict_has_def split: sum.splits exn.splits)
  qed
qed

lemma dict_set_append: "name \<notin> fst ` set d \<Longrightarrow> dict_set d name x = d @ [(name, x)]"
  by (induction d) auto

lemma fold_step_put_optional:
  assumes "distinct names"
    and "set names \<inter> fst ` set ret = {}"
    and "\<forall>name\<in>set names. field_typ cls name \<noteq> None"
    and "\<forall>name\<in>set names. \<forall>r. checked_field R True cls kvs name = Some r \<longrightarrow> \<not> isl r"
  shows "fold step_put (map (Dict_step R True cls kvs) names) ret
           = ret @ List.map_filter (field_value R True cls kvs) names"
  using assms
proof (induction names arbitrary: ret)
  case Nil
  then show ?case by (simp add: List.map_filter_simps)
next
  case (Cons name names)
  from Cons.prems obtain t where t: "field_typ cls name = Some t" by auto
  show ?case
  proof (cases "map_of kvs name")
    case None
    with t have "Dict_step R True cls kvs name = Skip"
      and "field_value R True cls kvs name = None"
      by (simp_all add: Dict_step_optional field_value_def checked_field_def)
    with Cons show ?thesis by (simp add: List.map_filter_simps)
  next
    case (Some x)
    with t have c: "checked_field R True cls kvs name = Some (check R True t x)"
      by (simp add: checked_field_def)
    with Cons.prems obtain y where y: "check R True t x = Inr y"
      by (cases "check R True t x") auto
    with t Some c have step: "Dict_step R True cls kvs name = Put name y"
      and val: "field_value R True cls kvs name = Some (name, y)"
      by (simp_all add: Dict_step_optional field_value_def)
    from Cons.prems have "name \<notin> fst ` set ret" by auto
    then have set: "dict_set ret name y = ret @ [(name, y)]" by (rule dict_set_append)
    from Cons.prems have "set names \<inter> fst ` set (ret @ [(name, y)]) = {}" by auto
    with Cons have "fold step_put (map (Dict_step R True cls kvs) names) (ret @ [(name, y)])
                      = (ret @ [(name, y)]) @ List.map_filter (field_value R True cls kvs) names"
      by simp
    with step val set show ?thesis by (simp add: List.map_filter_simps)
  qed
qed

lemma optional_errors:
  assumes "\<forall>name\<in>set names. field_typ cls name \<noteq> None"
    and "\<forall>name\<in>set names. \<forall>r. checked_field R True cls kvs name = Some r \<longrightarrow> validation_outcome r"
  shows "(\<forall>s\<in>set (map (Dict_step R True cls kvs) names). \<not> is_Raise s)
         \<and> concat (map step_bad (map (Dict_step R True cls kvs) names))
             = concat (map (field_errors R True cls kvs) names)"
  using assms
proof (induction names)
  case Nil
  then show ?case by simp
next
  case (Cons name names)
  from Cons.prems obtain t where t: "field_typ cls name = Some t" by auto
  have "\<not> is_Raise (Dict_step R True cls kvs name)
        \<and> step_bad (Dict_step R True cls kvs name) = field_errors R True cls kvs name"
  proof (cases "map_of kvs name")
    case None
    with t show ?thesis
      by (simp add: Dict_step_optional field_errors_def checked_field_def)
  next
    case (Some x)
    with t have c: "checked_field R True cls kvs name = Some (check R True t x)"
      by (simp add: checked_field_def)
    with Cons.prems have "validation_outcome (check R True t x)" by simp
    with t Some c show ?thesis
      by (auto simp: Dict_step_optional field_errors_def validation_outcome_def
               split: sum.splits exn.splits)
  qed
  with Cons show ?case by simp
qed

lemma mro_single: "mro (Class n [Dict] d) = Some [Class n [Dict] d, Dict]"
  by (simp add: c3_merge.simps c3_good_def)

lemma getattr_single:
  "getattr (Class n [Dict] d) name = map_option normalized (map_of d name)"
  by (cases "map_of d name") (simp_all add: getattr_def mro_single del: mro.simps)

theorem Dict_check_missing_required_witness:
  "(\<exists>errors.
      check example_runtime False (DictC AB) (PDict []) = Inl (Error errors)
      \<and> set errors = {(''.a'', ''is required''), (''.b'', ''is required'')}
      \<and> length errors = 2)
   \<and> check example_runtime False (DictC AC) (PDict [])
       = Inl (Error [(''.a'', ''is required'')])
   \<and> check example_runtime False (DictC AC) (PDict [(''c'', PStr ''hi'')])
       = Inl (Error [(''.a'', ''is required'')])"
proof -
  let ?R = "example_runtime"
  have two: "\<exists>errors.
      check ?R False (DictC AB) (PDict []) = Inl (Error errors)
      \<and> set errors = {(''.a'', ''is required''), (''.b'', ''is required'')}
      \<and> length errors = 2"
  proof -
    have types: "cls_types (AB :: unit cls) = Some [''b'', ''a'']"
      by (simp add: AB_def)
    have iter: "rt_set_iter ?R [''b'', ''a''] = [''b'', ''a'']"
      by (simp add: example_runtime_def)
    have miss: "missing_required (AB :: unit cls) [] name" if "name \<in> {''a'', ''b''}" for name
      using that
      by (auto simp: missing_required_def is_required_def AB_def getattr_single Int_t_def dict_has_def)
    have eq: "{name \<in> set [''b'', ''a'']. missing_required (AB :: unit cls) [] name} = {''a'', ''b''}"
      using miss by auto
    have once: "distinct (rt_set_iter ?R [''b'', ''a''])"
      and every: "set (rt_set_iter ?R [''b'', ''a'']) = set [''b'', ''a'']"
      by (simp_all add: iter)
    have others: "\<forall>name\<in>set [''b'', ''a''].
                    missing_required (AB :: unit cls) [] name \<or> field_without_defect ?R AB [] name"
      using miss by simp
    have some: "\<exists>name\<in>set [''b'', ''a'']. missing_required (AB :: unit cls) [] name"
      using miss by simp
    from Dict_check_missing_required[OF types once every others some]
    obtain errors where
      "check ?R False (DictC AB) (PDict []) = Inl (Error errors)"
      "set errors = required_entry ` {name \<in> set [''b'', ''a'']. missing_required (AB :: unit cls) [] name}"
      "length errors = card {name \<in> set [''b'', ''a'']. missing_required (AB :: unit cls) [] name}"
      by blast
    moreover have "required_entry ` {''a'', ''b''} = {(''.a'', ''is required''), (''.b'', ''is required'')}"
      by (simp add: required_entry_def)
    moreover have "card {''a'', ''b''} = 2" by simp
    ultimately show ?thesis
      unfolding eq by (intro exI[of _ errors]) (simp only: simp_thms)
  qed
  have one: "check ?R False (DictC AC) (PDict kvs) = Inl (Error [(''.a'', ''is required'')])"
    if kvs: "kvs = [] \<or> kvs = [(''c'', PStr ''hi'')]" for kvs :: "(string \<times> unit pyval) list"
  proof -
    have types: "cls_types (AC :: unit cls) = Some [''d'', ''c'', ''a'']"
      by (simp add: AC_def)
    have iter: "rt_set_iter ?R [''d'', ''c'', ''a''] = [''d'', ''c'', ''a'']"
      by (simp add: example_runtime_def)
    have a: "missing_required (AC :: unit cls) kvs ''a''"
      using kvs
      by (auto simp: missing_required_def is_required_def AC_def getattr_single Int_t_def dict_has_def)
    have c: "\<not> missing_required (AC :: unit cls) kvs ''c''"
      and d: "\<not> missing_required (AC :: unit cls) kvs ''d''"
      by (simp_all add: missing_required_def is_required_def AC_def getattr_single)
    have hi: "check ?R False (Str 10 None) (PStr ''hi'') = Inr (PStr ''hi'')"
      by (simp add: Str_def mk_StrBase_def LenRange_init_def StrBase_check_def LenRange_check_def
            LenRange_verdict_def example_runtime_def)
    have fc: "field_without_defect ?R AC kvs ''c''"
      using kvs hi
      by (auto simp: field_without_defect_def AC_def getattr_single simp del: check.simps)
    have fd: "field_without_defect ?R AC kvs ''d''"
      using kvs
      by (auto simp: field_without_defect_def AC_def getattr_single Int_t_def simp del: check.simps)
    have eq: "{name \<in> set [''d'', ''c'', ''a'']. missing_required (AC :: unit cls) kvs name} = {''a''}"
      using a c d by auto
    have once: "distinct (rt_set_iter ?R [''d'', ''c'', ''a''])"
      and every: "set (rt_set_iter ?R [''d'', ''c'', ''a'']) = set [''d'', ''c'', ''a'']"
      by (simp_all add: iter)
    have others: "\<forall>name\<in>set [''d'', ''c'', ''a''].
                    missing_required (AC :: unit cls) kvs name \<or> field_without_defect ?R AC kvs name"
      using a fc fd by simp
    have some: "\<exists>name\<in>set [''d'', ''c'', ''a'']. missing_required (AC :: unit cls) kvs name"
      using a by simp
    from Dict_check_missing_required[OF types once every others some]
    obtain errors where res: "check ?R False (DictC AC) (PDict kvs) = Inl (Error errors)"
      and "set errors = required_entry ` {name \<in> set [''d'', ''c'', ''a'']. missing_required (AC :: unit cls) kvs name}"
      and "length errors = card {name \<in> set [''d'', ''c'', ''a'']. missing_required (AC :: unit cls) kvs name}"
      by blast
    then have "set errors = {(''.a'', ''is required'')}" and "length errors = 1"
      unfolding eq by (simp_all add: required_entry_def)
    then have "errors = [(''.a'', ''is required'')]"
      by (cases errors) auto
    with res show ?thesis by (simp only:)
  qed
  from two one[of "[]"] one[of "[(''c'', PStr ''hi'')]"] show ?thesis
    by (simp only: simp_thms)
qed


lemma field_errors_nonempty:
  assumes "checked_field R optional cls kvs name = Some r" and "validation_outcome r" and "isl r"
  shows "field_errors R optional cls kvs name \<noteq> []"
proof -
  from assms(2,3) obtain es where r: "r = Inl (Error es)"
    by (auto simp: validation_outcome_def split: sum.splits exn.splits)
  from assms(1) r obtain t x where "check R optional t x = Inl (Error es)"
    by (auto simp: checked_field_def split: option.splits)
  then have "es \<noteq> []" by (rule check_Error_nonempty)
  with assms(1) r show ?thesis by (simp add: field_errors_def)
qed

lemma set_map_filter: "set (List.map_filter f xs) = {y. \<exists>x\<in>set xs. f x = Some y}"
  by (induction xs) (auto simp: List.map_filter_simps split: option.splits)

lemma field_value_Some:
  "field_value R optional cls kvs name = Some e \<Longrightarrow> fst e = name \<and> dict_has kvs name"
  by (auto simp: field_value_def checked_field_def dict_has_def
           split: option.splits sum.splits)

lemma field_errors_empty:
  "\<forall>r. checked_field R optional cls kvs name = Some r \<longrightarrow> \<not> isl r \<Longrightarrow>
   field_errors R optional cls kvs name = []"
  by (auto simp: field_errors_def split: option.splits sum.splits exn.splits)

text \<open>
  C4. With \<open>optional\<close> set, \<^verbatim>\<open>Dict._check\<close> skips every declared field that is absent
  from the input: the output holds the coerced values of the declared fields that are
  keys of the input and no other key, and the error, raised when one of those values
  fails its check, holds the re-homed errors of those checks and no \<open>is required\<close> entry.
\<close>

theorem Dict_check_optional:
  assumes types: "cls_types cls = Some types"
    and once: "distinct (rt_set_iter R types)"
    and every: "set (rt_set_iter R types) = set types"
    and fields: "\<forall>name\<in>set types. field_typ cls name \<noteq> None"
    and outcomes: "\<forall>name\<in>set types. \<forall>r.
                     checked_field R True cls kvs name = Some r \<longrightarrow> validation_outcome r"
  shows "check R True (DictC cls) (PDict kvs) =
           (if \<exists>name\<in>set types. \<exists>r. checked_field R True cls kvs name = Some r \<and> isl r
            then Inl (Error (concat (map (field_errors R True cls kvs) (rt_set_iter R types))))
            else Inr (PDict (List.map_filter (field_value R True cls kvs) (rt_set_iter R types))))
         \<and> fst ` set (List.map_filter (field_value R True cls kvs) (rt_set_iter R types))
             \<subseteq> {name \<in> set types. dict_has kvs name}"
proof
  let ?names = "rt_set_iter R types"
  let ?steps = "map (Dict_step R True cls kvs) ?names"
  let ?bad = "concat (map (field_errors R True cls kvs) ?names)"
  from fields every have f: "\<forall>name\<in>set ?names. field_typ cls name \<noteq> None" by simp
  from outcomes every
  have o: "\<forall>name\<in>set ?names. \<forall>r. checked_field R True cls kvs name = Some r \<longrightarrow> validation_outcome r"
    by simp
  from optional_errors[OF f o]
  have nr: "\<forall>s\<in>set ?steps. \<not> is_Raise s" and bad: "concat (map step_bad ?steps) = ?bad"
    by blast+
  from nr have "Dict_loop ?steps [] [] = Inr (fold step_put ?steps [], [] @ concat (map step_bad ?steps))"
    by (rule Dict_loop_no_Raise)
  with bad have loop: "Dict_loop ?steps [] [] = Inr (fold step_put ?steps [], ?bad)"
    by (simp only: append_Nil)
  show "check R True (DictC cls) (PDict kvs) =
           (if \<exists>name\<in>set types. \<exists>r. checked_field R True cls kvs name = Some r \<and> isl r
            then Inl (Error ?bad)
            else Inr (PDict (List.map_filter (field_value R True cls kvs) ?names)))"
  proof (cases "\<exists>name\<in>set types. \<exists>r. checked_field R True cls kvs name = Some r \<and> isl r")
    case True
    then obtain name r where name: "name \<in> set types"
      and r: "checked_field R True cls kvs name = Some r" "isl r"
      by blast
    with outcomes have "validation_outcome r" by blast
    then have "field_errors R True cls kvs name \<noteq> []"
      using field_errors_nonempty[OF r(1) _ r(2)] by blast
    with name every have "?bad \<noteq> []" by auto
    with True types loop show ?thesis
      by (simp add: check_DictC Dict_finish_def del: check.simps)
  next
    case False
    then have clean: "\<forall>name\<in>set ?names. \<forall>r. checked_field R True cls kvs name = Some r \<longrightarrow> \<not> isl r"
      using every by blast
    then have "\<forall>name\<in>set ?names. field_errors R True cls kvs name = []"
      using field_errors_empty by blast
    then have empty: "?bad = []" by simp
    from fold_step_put_optional[OF once _ f clean, of "[]"]
    have "fold step_put ?steps [] = List.map_filter (field_value R True cls kvs) ?names"
      by simp
    with False types loop empty show ?thesis
      by (simp add: check_DictC Dict_finish_def del: check.simps)
  qed
next
  show "fst ` set (List.map_filter (field_value R True cls kvs) (rt_set_iter R types))
          \<subseteq> {name \<in> set types. dict_has kvs name}"
  proof
    fix k
    assume "k \<in> fst ` set (List.map_filter (field_value R True cls kvs) (rt_set_iter R types))"
    then obtain name e where name: "name \<in> set (rt_set_iter R types)"
      and e: "field_value R True cls kvs name = Some e" and k: "k = fst e"
      by (auto simp: set_map_filter)
    from e have "fst e = name \<and> dict_has kvs name" by (rule field_value_Some)
    with name k every show "k \<in> {name \<in> set types. dict_has kvs name}" by simp
  qed
qed

theorem Dict_check_optional_witness:
  "check example_runtime True (DictC AB) (PDict []) = Inr (PDict [])
   \<and> check example_runtime True (DictC AB) (PDict [(''a'', PStr ''1'')])
       = Inr (PDict [(''a'', PInt 1)])"
proof -
  let ?R = "example_runtime"
  have types: "cls_types (AB :: unit cls) = Some [''b'', ''a'']"
    by (simp add: AB_def)
  have iter: "rt_set_iter ?R [''b'', ''a''] = [''b'', ''a'']"
    by (simp add: example_runtime_def)
  have once: "distinct (rt_set_iter ?R [''b'', ''a''])"
    and every: "set (rt_set_iter ?R [''b'', ''a'']) = set [''b'', ''a'']"
    by (simp_all add: iter)
  have ftyp: "field_typ (AB :: unit cls) name = (if name = ''a'' \<or> name = ''b'' then Some Int_t else None)"
    for name
    by (simp add: field_typ_def AB_def getattr_single)
  have fields: "\<forall>name\<in>set [''b'', ''a'']. field_typ (AB :: unit cls) name \<noteq> None"
    by (simp add: ftyp)
  have one: "check ?R True Int_t (PStr ''1'') = Inr (PInt 1)"
    by (simp add: Int_t_def NumberBase_check_def text_eval)
  have c0: "checked_field ?R True AB [] name = None" for name
    by (simp add: checked_field_def split: option.splits)
  have c1: "checked_field ?R True AB [(''a'', PStr ''1'')] name
              = (if name = ''a'' then Some (Inr (PInt 1)) else None)" for name
    by (simp add: checked_field_def ftyp one del: check.simps)
  have o0: "\<forall>name\<in>set [''b'', ''a'']. \<forall>r.
              checked_field ?R True AB [] name = Some r \<longrightarrow> validation_outcome r"
    by (simp add: c0)
  have o1: "\<forall>name\<in>set [''b'', ''a'']. \<forall>r.
              checked_field ?R True AB [(''a'', PStr ''1'')] name = Some r \<longrightarrow> validation_outcome r"
    by (simp add: c1 validation_outcome_def)
  from Dict_check_optional[OF types once every fields o0]
  have "check ?R True (DictC AB) (PDict []) = Inr (PDict [])"
    by (simp add: iter c0 field_value_def List.map_filter_simps del: check.simps)
  moreover
  from Dict_check_optional[OF types once every fields o1]
  have "check ?R True (DictC AB) (PDict [(''a'', PStr ''1'')]) = Inr (PDict [(''a'', PInt 1)])"
    by (simp add: iter c1 field_value_def List.map_filter_simps del: check.simps)
  ultimately show ?thesis by (simp only: simp_thms)
qed

section \<open>Schema composition\<close>


lemma fold_insert_distinct: "distinct t \<Longrightarrow> distinct (fold List.insert xs t)"
  by (induction xs arbitrary: t) auto


lemma fold_bases_distinct:
  "distinct t \<Longrightarrow>
   distinct (fold (\<lambda>b t. case cls_types b of None \<Rightarrow> t | Some ts \<Rightarrow> fold List.insert ts t) bs t)"
  by (induction bs arbitrary: t) (auto simp: fold_insert_distinct split: option.splits)


lemma fold_dct_distinct:
  "distinct t \<Longrightarrow>
   distinct (fold (\<lambda>(name, spec) t. if is_field spec then List.insert name t else t) d t)"
  by (induction d arbitrary: t) auto


lemma cls_types_distinct: "cls_types c = Some ts \<Longrightarrow> distinct ts"
  by (cases c) (auto simp: fold_dct_distinct fold_bases_distinct)
























lemma precedes_irrefl: "distinct l \<Longrightarrow> \<not> precedes l x x"
  unfolding precedes_def by auto









section \<open>The checks write to new objects only\<close>

lemma frame_refl: "store_ok \<sigma> \<Longrightarrow> frame W \<sigma> \<sigma>"
  by (simp add: frame_def)

lemma frame_trans: "frame W \<sigma> \<sigma>' \<Longrightarrow> frame W \<sigma>' \<sigma>'' \<Longrightarrow> frame W \<sigma> \<sigma>''"
  by (auto simp: frame_def)

lemma frame_mono: "frame {} \<sigma> \<sigma>' \<Longrightarrow> frame W \<sigma> \<sigma>'"
  by (auto simp: frame_def)

lemma frame_ok: "frame W \<sigma> \<sigma>' \<Longrightarrow> store_ok \<sigma>'"
  by (simp add: frame_def)

lemma frame_fresh: "frame W \<sigma> \<sigma>' \<Longrightarrow> r < fresh \<sigma> \<Longrightarrow> r < fresh \<sigma>'"
  by (auto simp: frame_def)

lemma frame_holds_dict: "frame {} \<sigma> \<sigma>' \<Longrightarrow> r < fresh \<sigma> \<Longrightarrow> holds_dict \<sigma> r \<Longrightarrow> holds_dict \<sigma>' r"
  by (auto simp: frame_def holds_dict_def)

lemma alloc_frame:
  assumes "store_ok \<sigma>" and "alloc obj \<sigma> = (b, \<sigma>')"
  shows "frame {} \<sigma> \<sigma>'" and "b = fresh \<sigma>" and "heap \<sigma>' b = Some obj" and "b < fresh \<sigma>'"
  using assms by (auto simp: alloc_def frame_def store_ok_def)

lemma dict_put_frame:
  assumes "store_ok \<sigma>" and "r < fresh \<sigma>"
  shows "frame {r} \<sigma> (dict_put \<sigma> r name x)"
    and "holds_dict \<sigma> r \<Longrightarrow> holds_dict (dict_put \<sigma> r name x) r"
  using assms
  by (auto simp: dict_put_def frame_def store_ok_def holds_dict_def
           split: option.splits hobj.splits)

lemma type_default_s_frame:
  "store_ok \<sigma> \<Longrightarrow> type_default_s R S t \<sigma> = (res, \<sigma>') \<Longrightarrow> frame {} \<sigma> \<sigma>'"
  by (cases "(R, S, t, \<sigma>)" rule: type_default_s.cases)
     (auto simp: alloc_def frame_def store_ok_def split: sum.splits)

lemma frame_step:
  assumes "frame {r} \<sigma> \<sigma>1" and "holds_dict \<sigma> r \<longrightarrow> holds_dict \<sigma>1 r"
    and "frame {r} \<sigma>1 \<sigma>3 \<and> (holds_dict \<sigma>1 r \<longrightarrow> holds_dict \<sigma>3 r)"
  shows "frame {r} \<sigma> \<sigma>3 \<and> (holds_dict \<sigma> r \<longrightarrow> holds_dict \<sigma>3 r)"
  using assms by (auto intro: frame_trans)

lemma put_after_frame:
  assumes "frame {} \<sigma> \<sigma>'" and "r < fresh \<sigma>"
  shows "frame {r} \<sigma> (dict_put \<sigma>' r name x)"
    and "holds_dict \<sigma> r \<longrightarrow> holds_dict (dict_put \<sigma>' r name x) r"
    and "store_ok (dict_put \<sigma>' r name x)"
    and "r < fresh (dict_put \<sigma>' r name x)"
proof -
  from assms have ok': "store_ok \<sigma>'" and r': "r < fresh \<sigma>'"
    by (auto simp: frame_def)
  from dict_put_frame(1)[OF ok' r'] have f: "frame {r} \<sigma>' (dict_put \<sigma>' r name x)" .
  with frame_mono[OF assms(1)] show "frame {r} \<sigma> (dict_put \<sigma>' r name x)"
    by (rule frame_trans)
  from assms dict_put_frame(2)[OF ok' r']
  show "holds_dict \<sigma> r \<longrightarrow> holds_dict (dict_put \<sigma>' r name x) r"
    by (auto dest: frame_holds_dict)
  from f show "store_ok (dict_put \<sigma>' r name x)" by (rule frame_ok)
  from f r' show "r < fresh (dict_put \<sigma>' r name x)" by (rule frame_fresh)
qed

lemma store_frame:
  "(store_ok \<sigma> \<longrightarrow> check_s R S optional t v \<sigma> = (res1, \<sigma>1) \<longrightarrow> frame {} \<sigma> \<sigma>1)"
  "(store_ok \<sigma> \<longrightarrow> SeqBase_loop_s R S optional t xs i ret bad \<sigma> = (res2, \<sigma>2) \<longrightarrow> frame {} \<sigma> \<sigma>2)"
  "(store_ok \<sigma> \<longrightarrow> r < fresh \<sigma> \<longrightarrow>
      Dict_loop_s R S optional cls a r names bad \<sigma> = (res3, \<sigma>3) \<longrightarrow>
      frame {r} \<sigma> \<sigma>3 \<and> (holds_dict \<sigma> r \<longrightarrow> holds_dict \<sigma>3 r))"
proof (induction R S optional t v \<sigma> and R S optional t xs i ret bad \<sigma>
         and R S optional cls a r names bad \<sigma>
       arbitrary: res1 \<sigma>1 and res2 \<sigma>2 and res3 \<sigma>3
       rule: check_s_SeqBase_loop_s_Dict_loop_s.induct)
  case (1 R S optional c ty lenrange v \<sigma>)
  show ?case
  proof (intro impI)
    assume ok: "store_ok \<sigma>"
      and run: "check_s R S optional (SeqBase c ty lenrange) v \<sigma> = (res1, \<sigma>1)"
    show "frame {} \<sigma> \<sigma>1"
    proof (cases "seq_obj c v \<sigma>")
      case None
      with run ok show ?thesis by (simp add: frame_refl)
    next
      case (Some xs)
      show ?thesis
      proof (cases "case lenrange of None \<Rightarrow> None
                    | Some (word, lo, hi) \<Rightarrow> LenRange_verdict word lo hi (Some (length xs))")
        case verdict: (Some e)
        with run ok Some show ?thesis by (simp add: frame_refl)
      next
        case None
        obtain r \<sigma>' where loop: "SeqBase_loop_s R S optional ty xs 0 [] [] \<sigma> = (r, \<sigma>')"
          by (cases "SeqBase_loop_s R S optional ty xs 0 [] [] \<sigma>")
        with "1.IH"[OF Some None] ok have fr: "frame {} \<sigma> \<sigma>'" by blast
        show ?thesis
        proof (cases r)
          case (Inl e)
          with run Some None loop fr show ?thesis by simp
        next
          case (Inr p)
          obtain ret bad where p: "p = (ret, bad)" by (cases p)
          show ?thesis
          proof (cases "bad \<noteq> []")
            case True
            with run Some None loop Inr p fr show ?thesis by simp
          next
            case False
            obtain b \<sigma>'' where al: "alloc (seqcls_obj c ret) \<sigma>' = (b, \<sigma>'')"
              by (cases "alloc (seqcls_obj c ret) \<sigma>'")
            from alloc_frame(1)[OF frame_ok[OF fr] al] fr have "frame {} \<sigma> \<sigma>''"
              by (rule frame_trans[rotated])
            with run Some None loop Inr p False al show ?thesis by simp
          qed
        qed
      qed
    qed
  qed
next
  case (2 R S optional cls v \<sigma>)
  show ?case
  proof (intro impI)
    assume ok: "store_ok \<sigma>"
      and run: "check_s R S optional (DictC cls) v \<sigma> = (res1, \<sigma>1)"
    show "frame {} \<sigma> \<sigma>1"
    proof (cases "dict_obj v \<sigma>")
      case None
      with run ok show ?thesis by (simp add: frame_refl)
    next
      case (Some a)
      obtain r \<sigma>' where al: "alloc (HDict []) \<sigma> = (r, \<sigma>')"
        by (cases "alloc (HDict []) \<sigma> :: addr \<times> 'a store")
      note af = alloc_frame[OF ok al]
      show ?thesis
      proof (cases "cls_types cls")
        case None
        with run Some al af(1) show ?thesis by simp
      next
        case types: (Some types)
        obtain r3 \<sigma>3 where loop:
          "Dict_loop_s R S optional cls a r (rt_set_iter R types) [] \<sigma>' = (r3, \<sigma>3)"
          by (cases "Dict_loop_s R S optional cls a r (rt_set_iter R types) [] \<sigma>'")
        from "2.IH"[OF Some al[symmetric] types] loop frame_ok[OF af(1)] af(4)
        have fr: "frame {r} \<sigma>' \<sigma>3" by blast
        have "frame {} \<sigma> \<sigma>3"
          using af(1,2) fr by (auto simp: frame_def)
        with run Some al types loop show ?thesis
          by (auto split: sum.splits if_splits)
      qed
    qed
  qed
next
  case (5 R S optional t x xs i ret bad \<sigma>)
  show ?case
  proof (intro impI)
    assume ok: "store_ok \<sigma>"
      and run: "SeqBase_loop_s R S optional t (x # xs) i ret bad \<sigma> = (res2, \<sigma>2)"
    obtain r1 \<sigma>' where c: "check_s R S optional t x \<sigma> = (r1, \<sigma>')"
      by (cases "check_s R S optional t x \<sigma>")
    with "5.IH"(1) ok have fr: "frame {} \<sigma> \<sigma>'" by blast
    then have ok': "store_ok \<sigma>'" by (rule frame_ok)
    show "frame {} \<sigma> \<sigma>2"
    proof (cases r1)
      case (Inr y)
      with "5.IH"(3)[OF c[symmetric] Inr] ok' run c have "frame {} \<sigma>' \<sigma>2" by simp
      with fr show ?thesis by (rule frame_trans)
    next
      case (Inl e)
      show ?thesis
      proof (cases "caught e")
        case None
        with run c Inl fr show ?thesis by simp
      next
        case (Some errors)
        with "5.IH"(2)[OF c[symmetric] Inl Some] ok' run c Inl have "frame {} \<sigma>' \<sigma>2" by simp
        with fr show ?thesis by (rule frame_trans)
      qed
    qed
  qed
next
  case (7 R S optional cls a r name names bad \<sigma>)
  show ?case
  proof (intro impI)
    assume ok: "store_ok \<sigma>" and r: "r < fresh \<sigma>"
      and run: "Dict_loop_s R S optional cls a r (name # names) bad \<sigma> = (res3, \<sigma>3)"
    show "frame {r} \<sigma> \<sigma>3 \<and> (holds_dict \<sigma> r \<longrightarrow> holds_dict \<sigma>3 r)"
    proof (cases "getattr cls name")
      case None
      with run ok show ?thesis by (simp add: frame_refl)
    next
      case (Some spec)
      show ?thesis
      proof (cases "Dict_plan optional spec (dict_get \<sigma> a name)")
        case (Raise_p e)
        with run ok Some show ?thesis by (simp add: frame_refl)
      next
        case Skip_p
        with "7.IH"(1)[OF Some Skip_p] run ok r Some show ?thesis by simp
      next
        case Required_p
        with "7.IH"(2)[OF Some Required_p] run ok r Some show ?thesis by simp
      next
        case (Const_p dflt)
        note p = put_after_frame[OF frame_refl[OF ok] r, of name "hval_of S dflt"]
        from "7.IH"(3)[OF Some Const_p] run Some Const_p p(3,4)
        have "frame {r} (dict_put \<sigma> r name (hval_of S dflt)) \<sigma>3
              \<and> (holds_dict (dict_put \<sigma> r name (hval_of S dflt)) r \<longrightarrow> holds_dict \<sigma>3 r)"
          by simp
        with p(1,2) show ?thesis by (rule frame_step)
      next
        case (FromType_p ty)
        obtain r1 \<sigma>' where d: "type_default_s R S ty \<sigma> = (r1, \<sigma>')"
          by (cases "type_default_s R S ty \<sigma>")
        from type_default_s_frame[OF ok d] have fr: "frame {} \<sigma> \<sigma>'" .
        show ?thesis
        proof (cases r1)
          case (Inl e)
          with run Some FromType_p d fr r show ?thesis
            by (auto intro: frame_mono dest: frame_holds_dict)
        next
          case (Inr x)
          note p = put_after_frame[OF fr r, of name x]
          from "7.IH"(4)[OF Some FromType_p d[symmetric] Inr] run Some FromType_p d Inr p(3,4)
          have "frame {r} (dict_put \<sigma>' r name x) \<sigma>3
                \<and> (holds_dict (dict_put \<sigma>' r name x) r \<longrightarrow> holds_dict \<sigma>3 r)"
            by simp
          with p(1,2) show ?thesis by (rule frame_step)
        qed
      next
        case (Check_p ty x)
        obtain r1 \<sigma>' where c: "check_s R S optional ty x \<sigma> = (r1, \<sigma>')"
          by (cases "check_s R S optional ty x \<sigma>")
        from "7.IH"(5)[OF Some Check_p] ok c have fr: "frame {} \<sigma> \<sigma>'" by blast
        then have ok': "store_ok \<sigma>'" and r': "r < fresh \<sigma>'"
          using r by (auto simp: frame_def)
        show ?thesis
        proof (cases r1)
          case (Inr y)
          note p = put_after_frame[OF fr r, of name y]
          from "7.IH"(7)[OF Some Check_p c[symmetric] Inr] run Some Check_p c Inr p(3,4)
          have "frame {r} (dict_put \<sigma>' r name y) \<sigma>3
                \<and> (holds_dict (dict_put \<sigma>' r name y) r \<longrightarrow> holds_dict \<sigma>3 r)"
            by simp
          with p(1,2) show ?thesis by (rule frame_step)
        next
          case (Inl e)
          show ?thesis
          proof (cases "caught e")
            case None
            with run Some Check_p c Inl fr r show ?thesis
              by (auto intro: frame_mono dest: frame_holds_dict)
          next
            case (Some errors)
            from "7.IH"(6)[OF \<open>getattr cls name = Some spec\<close> Check_p c[symmetric] Inl Some]
              run \<open>getattr cls name = Some spec\<close> Check_p c Inl Some ok' r'
            have "frame {r} \<sigma>' \<sigma>3 \<and> (holds_dict \<sigma>' r \<longrightarrow> holds_dict \<sigma>3 r)"
              by simp
            moreover from fr r have "holds_dict \<sigma> r \<longrightarrow> holds_dict \<sigma>' r"
              by (auto dest: frame_holds_dict)
            ultimately show ?thesis
              using frame_mono[OF fr, of "{r}"] by (auto intro: frame_trans)
          qed
        qed
      qed
    qed
  qed
qed (auto simp: frame_refl)


lemma Dict_check_s_result:
  assumes ok: "store_ok \<sigma>"
    and run: "check_s R S optional (DictC cls) v \<sigma> = (Inr y, \<sigma>')"
  shows "y = HRef (fresh \<sigma>) \<and> holds_dict \<sigma>' (fresh \<sigma>)"
proof -
  from run obtain a where a: "dict_obj v \<sigma> = Some a"
    by (cases "dict_obj v \<sigma>") auto
  obtain r \<sigma>1 where al: "alloc (HDict []) \<sigma> = (r, \<sigma>1)"
    by (cases "alloc (HDict []) \<sigma> :: addr \<times> 'a store")
  note af = alloc_frame[OF ok al]
  from run a al obtain types where types: "cls_types cls = Some types"
    by (cases "cls_types cls") auto
  obtain r3 \<sigma>3 where loop:
    "Dict_loop_s R S optional cls a r (rt_set_iter R types) [] \<sigma>1 = (r3, \<sigma>3)"
    by (cases "Dict_loop_s R S optional cls a r (rt_set_iter R types) [] \<sigma>1")
  from run a al types loop have res: "y = HRef r" "\<sigma>' = \<sigma>3"
    by (auto split: sum.splits if_splits)
  from af(3) have "holds_dict \<sigma>1 r" by (simp add: holds_dict_def)
  with store_frame(3)[of \<sigma>1 r R S optional cls a "rt_set_iter R types" "[]" r3 \<sigma>3]
    frame_ok[OF af(1)] af(4) loop
  have "holds_dict \<sigma>3 r" by blast
  with res af(2) show ?thesis by simp
qed

text \<open>
  C10. Whatever \<^verbatim>\<open>Dict._check\<close> returns or raises, the input mapping holds after the
  call the key-value pairs it held before, and so does every other object that the store
  held; when the call returns, the result is a \<^verbatim>\<open>dict\<close> at an address that was not in use
  before the call, so it is not the input.
\<close>

theorem Dict_check_leaves_input:
  assumes ok: "store_ok \<sigma>"
    and input: "heap \<sigma> a = Some (HDict kvs)"
    and run: "check_s R S optional (DictC cls) (HRef a) \<sigma> = (res, \<sigma>')"
  shows "heap \<sigma>' a = Some (HDict kvs)
         \<and> (\<forall>b obj. heap \<sigma> b = Some obj \<longrightarrow> heap \<sigma>' b = Some obj)
         \<and> (\<forall>y. res = Inr y \<longrightarrow>
               (\<exists>b ret. y = HRef b \<and> b \<noteq> a \<and> heap \<sigma> b = None \<and> heap \<sigma>' b = Some (HDict ret)))"
proof -
  from store_frame(1)[of \<sigma> R S optional "DictC cls" "HRef a" res \<sigma>'] ok run
  have fr: "frame {} \<sigma> \<sigma>'" by blast
  have old: "heap \<sigma>' b = Some obj" if "heap \<sigma> b = Some obj" for b obj
  proof -
    from that ok have "b < fresh \<sigma>"
      by (auto simp: store_ok_def not_le[symmetric])
    with fr that show ?thesis by (simp add: frame_def)
  qed
  have new: "\<exists>b ret. y = HRef b \<and> b \<noteq> a \<and> heap \<sigma> b = None \<and> heap \<sigma>' b = Some (HDict ret)"
    if "res = Inr y" for y
  proof -
    from Dict_check_s_result[OF ok run[unfolded that]]
    have y: "y = HRef (fresh \<sigma>)" and d: "holds_dict \<sigma>' (fresh \<sigma>)" by simp_all
    from ok have none: "heap \<sigma> (fresh \<sigma>) = None" by (simp add: store_ok_def)
    with input have "fresh \<sigma> \<noteq> a" by auto
    moreover from d obtain ret where "heap \<sigma>' (fresh \<sigma>) = Some (HDict ret)"
      by (auto simp: holds_dict_def split: option.splits hobj.splits)
    ultimately show ?thesis using y none by blast
  qed
  from old[OF input] old new show ?thesis by blast
qed

theorem Dict_check_leaves_input_witness:
  "fst (check_s example_runtime example_store_runtime True (DictC AB) (HRef 0) example_store)
     = Inr (HRef 1)
   \<and> heap (snd (check_s example_runtime example_store_runtime True (DictC AB) (HRef 0)
                   example_store)) 0
       = Some (HDict [(''a'', HStr ''1'')])
   \<and> heap (snd (check_s example_runtime example_store_runtime True (DictC AB) (HRef 0)
                   example_store)) 1
       = Some (HDict [(''a'', HInt 1)])"
proof -
  let ?run = "check_s example_runtime example_store_runtime True (DictC AB) (HRef 0) example_store"
  have ok: "store_ok example_store"
    by (simp add: store_ok_def example_store_def)
  have input: "heap example_store 0 = Some (HDict [(''a'', HStr ''1'')])"
    by (simp add: example_store_def)
  have types: "cls_types (AB :: unit cls) = Some [''b'', ''a'']"
    by (simp add: AB_def)
  have iter: "rt_set_iter example_runtime names = names" for names
    by (simp add: example_runtime_def)
  have one: "NumberBase_check example_runtime Cint (PStr ''1'') = Inr (PInt 1)"
    by (simp add: NumberBase_check_def text_eval)
  have ga: "getattr (AB :: unit cls) ''a'' = Some (Tup Int_t [])"
    and gb: "getattr (AB :: unit cls) ''b'' = Some (Tup Int_t [])"
    by (simp_all add: AB_def getattr_single)
  have res: "fst ?run = Inr (HRef 1)"
    and new: "heap (snd ?run) 1 = Some (HDict [(''a'', HInt 1)])"
    by (simp_all add: types iter ga gb alloc_def example_store_def dict_get_def dict_put_def
                      Dict_plan_def Int_t_def scalar_check_s_def one)
  from Dict_check_leaves_input[OF ok input surjective_pairing]
  have "heap (snd ?run) 0 = Some (HDict [(''a'', HStr ''1'')])" by blast
  with res new show ?thesis by (simp only: simp_thms)
qed

end
